theory Spec2Isabelle
  imports Main "HOL-Library.Word"
begin

unbundle bit_operations_syntax

section \<open>Elevator ENQ simulator: telegram codec\<close>

text \<open>
  Source: \<^verbatim>\<open>src/backend-cli/elevator_enq_sim.c\<close>.  A C \<^verbatim>\<open>int\<close> and an
  \<^verbatim>\<open>unsigned int\<close> are 32-bit words; \<open>sint\<close> reads the signed value, \<open>unat\<close> the
  unsigned one.  A C string is a \<open>char list\<close>; every C routine that walks a string stops
  at the first NUL byte, and the end of the list stands for the terminating NUL.
\<close>

type_synonym c_int = "32 word"
type_synonym c_uint = "32 word"

definition c_str :: "string \<Rightarrow> string" where
  "c_str buf = takeWhile (\<lambda>c. c \<noteq> CHR 0x00) buf"

subsection \<open>The \<^verbatim>\<open>%0wX\<close> conversion of the C library\<close>

definition hexchar :: "nat \<Rightarrow> char" where
  "hexchar d = ''0123456789ABCDEF'' ! d"

text \<open>The digits of \<^verbatim>\<open>%X\<close>: most significant first, no leading zero, at least one digit.\<close>

function to_hex :: "nat \<Rightarrow> string" where
  "to_hex n = (if n < 16 then [hexchar n] else to_hex (n div 16) @ [hexchar (n mod 16)])"
  by pat_completeness auto
termination
  by (relation "measure id") auto

declare to_hex.simps [simp del]

text \<open>\<^verbatim>\<open>%0wX\<close>: the digits, padded on the left with zeros up to the minimum width \<open>w\<close>.\<close>

definition sprintf_0X :: "nat \<Rightarrow> nat \<Rightarrow> string" where
  "sprintf_0X w n = replicate (w - length (to_hex n)) (CHR ''0'') @ to_hex n"

subsection \<open>\<^verbatim>\<open>calculate_checksum\<close>\<close>

text \<open>The loop \<^verbatim>\<open>while (*data) sum += (unsigned char)*data++;\<close> on an \<^verbatim>\<open>unsigned int\<close>.\<close>

fun checksum_loop :: "string \<Rightarrow> c_uint \<Rightarrow> c_uint" where
  "checksum_loop [] sum_acc = sum_acc"
| "checksum_loop (c # data) sum_acc =
     (if c = CHR 0x00 then sum_acc else checksum_loop data (sum_acc + of_char c))"

definition calculate_checksum :: "string \<Rightarrow> string" where
  "calculate_checksum data = sprintf_0X 2 (unat (checksum_loop data 0 AND 0xFF))"

subsection \<open>\<^verbatim>\<open>floor_to_hex\<close> and \<^verbatim>\<open>floor_to_string\<close>\<close>

definition floor_to_hex :: "c_int \<Rightarrow> string" where
  "floor_to_hex floor = (if floor = - 1 then ''FFFF'' else sprintf_0X 4 (unat floor))"

definition floor_to_string :: "c_int \<Rightarrow> string" where
  "floor_to_string floor =
     (if floor = - 1 then ''B1F''
      else if floor = 1 then ''1F''
      else if floor = 2 then ''2F''
      else if floor = 3 then ''3F''
      else ''?'')"

subsection \<open>The frame built by \<^verbatim>\<open>send_enq\<close>\<close>

text \<open>
  \<^verbatim>\<open>sprintf(data_part, "%s%s%s%s", station, cmd, dataNum, dataValue)\<close>, then the
  checksum of the data part, then \<^verbatim>\<open>sprintf(message, "\x05%s%s", data_part, checksum)\<close>.
  \<open>enq_message\<close> is the buffer handed to \<^verbatim>\<open>WriteFile\<close> with length \<^verbatim>\<open>strlen(message)\<close>.
\<close>

definition station :: string where
  "station = ''0002''"

definition cmd :: string where
  "cmd = ''W''"

definition enq_data_part :: "string \<Rightarrow> string \<Rightarrow> string" where
  "enq_data_part dataNum dataValue = c_str station @ c_str cmd @ c_str dataNum @ c_str dataValue"

definition enq_message :: "string \<Rightarrow> string \<Rightarrow> string" where
  "enq_message dataNum dataValue =
     (let data_part = enq_data_part dataNum dataValue;
          checksum = calculate_checksum data_part
      in c_str (CHR 0x05 # c_str data_part @ c_str checksum))"

subsection \<open>Reference renderings used to state the properties\<close>

text \<open>A value written as exactly \<open>k\<close> uppercase hexadecimal digits, most significant first.\<close>

fun hex_fixed :: "nat \<Rightarrow> nat \<Rightarrow> string" where
  "hex_fixed 0 n = []"
| "hex_fixed (Suc k) n = hex_fixed k (n div 16) @ [hexchar (n mod 16)]"

text \<open>The sum of the byte values of a string.\<close>

definition byte_sum :: "string \<Rightarrow> nat" where
  "byte_sum data = sum_list (map of_char data)"

section \<open>Elevator ENQ simulator: scenario loop\<close>

text \<open>
  The program talks to three things outside itself, gathered in \<open>env\<close>:
  the signal handler that clears the flag \<^verbatim>\<open>running\<close>, the C library's \<^verbatim>\<open>rand\<close>, and
  the serial port behind \<^verbatim>\<open>WriteFile\<close>.  Time is counted in milliseconds and advances
  only in \<^verbatim>\<open>Sleep\<close>; \<open>cancel_at\<close> is the time at which the handler runs (\<open>None\<close>: never),
  \<open>rand_seq k\<close> is the value of the \<open>k\<close>-th call of \<^verbatim>\<open>rand\<close>, and \<open>write_ok t\<close> tells
  whether the \<^verbatim>\<open>WriteFile\<close> call made at time \<open>t\<close> succeeds.

  A send and a console line take no time here, so the flag never changes between a read
  of it and the sleep that follows a send or a line.  Whatever is said below about the
  time after the flag was cleared is said at this grain: in the program the time of the
  \<^verbatim>\<open>WriteFile\<close> and \<^verbatim>\<open>printf\<close> calls made since the last read comes on top.
\<close>

record env =
  cancel_at :: "nat option"
  rand_seq :: "nat \<Rightarrow> nat"
  write_ok :: "nat \<Rightarrow> bool"

text \<open>What the program does to the outside, each stamped with the time at which it starts.\<close>

datatype event = EvWrite bool string | EvSleep nat

text \<open>Console lines, by kind; their decorative text and wall-clock stamps are left out.\<close>

datatype log_line =
    LogSendError
  | LogSent string string string
  | LogScenario string string
  | LogWait3
  | LogWait10
  | LogArrived string

record sim_state =
  clock :: nat
  current_floor :: c_int
  rand_calls :: nat
  trace :: "(nat \<times> event) list"
  console :: "log_line list"

text \<open>A read of the volatile flag \<^verbatim>\<open>running\<close>.\<close>

definition running :: "env \<Rightarrow> sim_state \<Rightarrow> bool" where
  "running e s = (case cancel_at e of None \<Rightarrow> True | Some t \<Rightarrow> clock s < t)"

definition Sleep :: "nat \<Rightarrow> sim_state \<Rightarrow> sim_state" where
  "Sleep ms s = s\<lparr>clock := clock s + ms, trace := trace s @ [(clock s, EvSleep ms)]\<rparr>"

definition printf :: "log_line \<Rightarrow> sim_state \<Rightarrow> sim_state" where
  "printf l s = s\<lparr>console := console s @ [l]\<rparr>"

text \<open>
  \<^verbatim>\<open>send_enq\<close>: build the message, call \<^verbatim>\<open>WriteFile\<close>; on failure print the error and
  return, otherwise print the line that reports the telegram.
\<close>

definition send_enq :: "env \<Rightarrow> string \<Rightarrow> string \<Rightarrow> sim_state \<Rightarrow> sim_state" where
  "send_enq e dataNum dataValue s =
     (let message = enq_message dataNum dataValue;
          checksum = calculate_checksum (enq_data_part dataNum dataValue)
      in if \<not> write_ok e (clock s)
         then printf LogSendError (s\<lparr>trace := trace s @ [(clock s, EvWrite False message)]\<rparr>)
         else printf (LogSent (c_str station) (c_str dataValue) (c_str checksum))
                (s\<lparr>trace := trace s @ [(clock s, EvWrite True message)]\<rparr>))"

text \<open>
  The four loops
  \<^verbatim>\<open>for (int i = 0; i < 5 && running; i++) { send_enq(dataNum, dataValue, desc); Sleep(1000); }\<close>
  differ only in the telegram they send.
\<close>

function send_loop :: "env \<Rightarrow> string \<Rightarrow> string \<Rightarrow> nat \<Rightarrow> sim_state \<Rightarrow> sim_state" where
  "send_loop e dataNum dataValue i s =
     (if i < 5 \<and> running e s
      then send_loop e dataNum dataValue (Suc i) (Sleep 1000 (send_enq e dataNum dataValue s))
      else s)"
  by pat_completeness auto
termination
  by (relation "measure (\<lambda>(e, dataNum, dataValue, i, s). 5 - i)") auto

declare send_loop.simps [simp del]

text \<open>The two loops \<^verbatim>\<open>for (int i = 0; i < 10 && running; i++) Sleep(1000);\<close>.\<close>

function wait_loop :: "env \<Rightarrow> nat \<Rightarrow> sim_state \<Rightarrow> sim_state" where
  "wait_loop e i s = (if i < 10 \<and> running e s then wait_loop e (Suc i) (Sleep 1000 s) else s)"
  by pat_completeness auto
termination
  by (relation "measure (\<lambda>(e, i, s). 10 - i)") auto

declare wait_loop.simps [simp del]

definition floors :: "c_int list" where
  "floors = [- 1, 1, 2, 3]"

definition num_floors :: nat where
  "num_floors = length floors"

text \<open>
  \<^verbatim>\<open>do { target_floor = floors[rand() % num_floors]; } while (target_floor == current_floor);\<close>
  with \<open>k\<close> the number of calls of \<^verbatim>\<open>rand\<close> made so far.  The loop need not end: \<open>None\<close>.
\<close>

partial_function (option) select_target :: "env \<Rightarrow> c_int \<Rightarrow> nat \<Rightarrow> (c_int \<times> nat) option" where
  "select_target e cur k =
     (if floors ! (rand_seq e k mod num_floors) = cur
      then select_target e cur (Suc k)
      else Some (floors ! (rand_seq e k mod num_floors), Suc k))"

declare select_target.simps [code]

text \<open>
  \<^verbatim>\<open>char cur_hex[5]\<close>, \<^verbatim>\<open>char tgt_hex[5]\<close>: \<^verbatim>\<open>floor_to_hex\<close> writes the digits and a NUL.
  A longer result runs over the buffer; the model stops there with \<open>BufferOverrun\<close>.
\<close>

definition fits_hex_buffer :: "string \<Rightarrow> bool" where
  "fits_hex_buffer str = (length str + 1 \<le> 5)"

text \<open>
  One pass through the body of \<^verbatim>\<open>while (running)\<close> ends in a \<^verbatim>\<open>break\<close> (\<open>Stopped\<close>) or
  at the end of the body (\<open>Again\<close>: the loop condition is read next).
\<close>

datatype outcome = BufferOverrun | Stopped sim_state | Again sim_state

definition cycle_body :: "env \<Rightarrow> c_int \<Rightarrow> sim_state \<Rightarrow> outcome" where
  "cycle_body e target_floor s0 =
     (let cur_s = floor_to_string (current_floor s0);
          tgt_s = floor_to_string target_floor;
          s1 = printf (LogScenario cur_s tgt_s) s0;
          cur_hex = floor_to_hex (current_floor s1)
      in if \<not> fits_hex_buffer cur_hex then BufferOverrun
      else let s2 = send_loop e ''0001'' cur_hex 0 s1
      in if \<not> running e s2 then Stopped s2
      else let s3 = Sleep 3000 (printf LogWait3 s2);
               tgt_hex = floor_to_hex target_floor
      in if \<not> fits_hex_buffer tgt_hex then BufferOverrun
      else let s4 = send_loop e ''0002'' tgt_hex 0 s3
      in if \<not> running e s4 then Stopped s4
      else let s5 = Sleep 3000 (printf LogWait3 s4);
               s6 = send_loop e ''0003'' ''074E'' 0 s5
      in if \<not> running e s6 then Stopped s6
      else let s7 = wait_loop e 0 (printf LogWait10 s6)
      in if \<not> running e s7 then Stopped s7
      else let s8 = send_loop e ''0002'' ''0000'' 0 s7;
               s9 = printf (LogArrived tgt_s) (s8\<lparr>current_floor := target_floor\<rparr>)
      in Again (wait_loop e 0 (printf LogWait10 s9)))"

definition scenario_cycle :: "env \<Rightarrow> sim_state \<Rightarrow> outcome option" where
  "scenario_cycle e s =
     (case select_target e (current_floor s) (rand_calls s) of
        None \<Rightarrow> None
      | Some (target_floor, k) \<Rightarrow> Some (cycle_body e target_floor (s\<lparr>rand_calls := k\<rparr>)))"

text \<open>\<^verbatim>\<open>while (running) { ... }\<close>: runs until the flag is cleared, for ever if it never is.\<close>

partial_function (option) wmain_loop :: "env \<Rightarrow> sim_state \<Rightarrow> outcome option" where
  "wmain_loop e s =
     (if running e s
      then (case scenario_cycle e s of
              None \<Rightarrow> None
            | Some BufferOverrun \<Rightarrow> Some BufferOverrun
            | Some (Stopped s') \<Rightarrow> Some (Stopped s')
            | Some (Again s') \<Rightarrow> wmain_loop e s')
      else Some (Stopped s))"

declare wmain_loop.simps [code]

text \<open>
  The state in which \<^verbatim>\<open>wmain\<close> enters the loop, once \<^verbatim>\<open>init_serial\<close> has opened the
  port (if it fails, \<^verbatim>\<open>wmain\<close> returns 1 before the loop and nothing is sent);
  \<^verbatim>\<open>start_floor\<close> is \<^verbatim>\<open>_wtoi(argv[2])\<close>, or 1 without a second argument.
\<close>

definition initial_state :: "c_int \<Rightarrow> sim_state" where
  "initial_state start_floor =
     \<lparr>clock = 0, current_floor = start_floor, rand_calls = 0, trace = [], console = []\<rparr>"

definition wmain :: "env \<Rightarrow> c_int \<Rightarrow> outcome option" where
  "wmain e start_floor = wmain_loop e (initial_state start_floor)"

subsection \<open>The stage plan, as the specification words it\<close>

text \<open>
  A plan is a list of steps; \<open>timeline\<close> lays it out from a starting time, a send taking
  no time and a wait taking its length.
\<close>

datatype step = DoSend string string | DoWait nat

fun timeline :: "env \<Rightarrow> nat \<Rightarrow> step list \<Rightarrow> (nat \<times> event) list" where
  "timeline e t [] = []"
| "timeline e t (DoSend dataNum dataValue # plan) =
     (t, EvWrite (write_ok e t) (enq_message dataNum dataValue)) # timeline e t plan"
| "timeline e t (DoWait ms # plan) = (t, EvSleep ms) # timeline e (t + ms) plan"

text \<open>Five sends one second apart, and a wait of \<open>n\<close> seconds made of one-second sleeps.\<close>

definition burst :: "string \<Rightarrow> string \<Rightarrow> step list" where
  "burst dataNum dataValue = concat (replicate 5 [DoSend dataNum dataValue, DoWait 1000])"

definition cycle_plan :: "c_int \<Rightarrow> c_int \<Rightarrow> step list" where
  "cycle_plan cur tgt =
     burst ''0001'' (floor_to_hex cur) @ [DoWait 3000]
     @ burst ''0002'' (floor_to_hex tgt) @ [DoWait 3000]
     @ burst ''0003'' ''074E'' @ replicate 10 (DoWait 1000)
     @ burst ''0002'' ''0000'' @ replicate 10 (DoWait 1000)"

text \<open>The times and frames of the \<^verbatim>\<open>WriteFile\<close> calls recorded in a trace.\<close>

fun writes :: "(nat \<times> event) list \<Rightarrow> (nat \<times> string) list" where
  "writes [] = []"
| "writes ((t, EvWrite ok message) # tr) = (t, message) # writes tr"
| "writes ((t, EvSleep ms) # tr) = writes tr"

subsection \<open>Notions used to state the timing properties\<close>

text \<open>The flag \<^verbatim>\<open>running\<close> as a read at time \<open>t\<close> finds it.\<close>

definition running_at :: "env \<Rightarrow> nat \<Rightarrow> bool" where
  "running_at e t = (case cancel_at e of None \<Rightarrow> True | Some c \<Rightarrow> t < c)"

text \<open>Time \<open>t\<close> lies less than \<open>d\<close> milliseconds after the flag was cleared, if it was.\<close>

definition within_ms :: "env \<Rightarrow> nat \<Rightarrow> nat \<Rightarrow> bool" where
  "within_ms e d t = (case cancel_at e of None \<Rightarrow> True | Some c \<Rightarrow> t < c + d)"

text \<open>
  The sleeps of the program are one second long, but for the 3-second waits.
\<close>

fun paced :: "event \<Rightarrow> bool" where
  "paced (EvWrite ok message) = True"
| "paced (EvSleep ms) = (ms = 1000 \<or> ms = 3000)"

text \<open>
  Every event of a piece of trace follows a read of the flag, made at the same time of
  the model, that found it set; and every sleep is paced.
\<close>

definition begun_while_running :: "env \<Rightarrow> (nat \<times> event) list \<Rightarrow> bool" where
  "begun_while_running e tr = (\<forall>(t, ev) \<in> set tr. running_at e t \<and> paced ev)"

text \<open>
  From \<open>s\<close> to \<open>s'\<close> time does not run backwards and the trace only grows, by
  events begun while the flag is set.
\<close>

definition advances :: "env \<Rightarrow> sim_state \<Rightarrow> sim_state \<Rightarrow> bool" where
  "advances e s s' \<longleftrightarrow>
     clock s \<le> clock s' \<and> (\<exists>tr. trace s' = trace s @ tr \<and> begun_while_running e tr)"

text \<open>
  The random source is fair to a floor: from every position on, some later draw
  picks another floor.
\<close>

definition draws_other :: "env \<Rightarrow> c_int \<Rightarrow> nat \<Rightarrow> bool" where
  "draws_other e cur k = (\<exists>j. floors ! (rand_seq e (k + j) mod num_floors) \<noteq> cur)"

text \<open>
  A state reached less than a second after the flag was cleared, or else at the end of
  a 3-second sleep and less than 3 seconds after the flag was cleared.
\<close>

definition ends_late :: "env \<Rightarrow> sim_state \<Rightarrow> bool" where
  "ends_late e s \<longleftrightarrow>
     within_ms e 1000 (clock s)
     \<or> (trace s \<noteq> [] \<and> snd (last (trace s)) = EvSleep 3000 \<and> within_ms e 3000 (clock s))"

text \<open>The state an outcome ends in, if it has one.\<close>

fun outcome_state :: "outcome \<Rightarrow> sim_state option" where
  "outcome_state BufferOverrun = None"
| "outcome_state (Stopped s) = Some s"
| "outcome_state (Again s) = Some s"

definition final_state :: "outcome option \<Rightarrow> sim_state option" where
  "final_state r = (case r of None \<Rightarrow> None | Some out \<Rightarrow> outcome_state out)"

text \<open>The time a plan takes.\<close>

fun plan_duration :: "step list \<Rightarrow> nat" where
  "plan_duration [] = 0"
| "plan_duration (DoSend dataNum dataValue # plan) = plan_duration plan"
| "plan_duration (DoWait ms # plan) = ms + plan_duration plan"

text \<open>
  An environment to run the model on: the flag is cleared at time \<open>c\<close>, the \<open>k\<close>-th
  draw of \<^verbatim>\<open>rand\<close> is \<open>k\<close>, and only the write made at time 2000 fails.
\<close>

definition draw_index :: "nat \<Rightarrow> nat" where
  "draw_index k = k"

definition fails_at_2000 :: "nat \<Rightarrow> bool" where
  "fails_at_2000 t = (t \<noteq> 2000)"

definition sample_env :: "nat option \<Rightarrow> env" where
  "sample_env c = \<lparr>cancel_at = c, rand_seq = draw_index, write_ok = fails_at_2000\<rparr>"



section \<open>Serial monitor\<close>

text \<open>
  Source: \<^verbatim>\<open>src/raspberryPi/product/serial_debug_test.c\<close>, \<^verbatim>\<open>monitor_serial\<close>.
  One turn of \<^verbatim>\<open>while (running)\<close> is driven by what \<^verbatim>\<open>read\<close> returns and by the value
  of \<^verbatim>\<open>time(NULL)\<close> in that turn, in seconds.
\<close>

datatype read_result = ReadError | ReadBytes string

datatype mon_line = Received int nat string string | Heartbeat int

record mon_state =
  last_activity :: int
  out :: "mon_line list"

text \<open>\<^verbatim>\<open>sprintf(hexstr + i*2, "%02X", buf[i])\<close> for each byte.\<close>

definition hexstr :: "string \<Rightarrow> string" where
  "hexstr buf = concat (map (\<lambda>b. sprintf_0X 2 (of_char b)) buf)"

text \<open>\<^verbatim>\<open>ascstr[i] = (b >= 32 && b <= 126) ? b : '.'\<close>.\<close>

definition ascstr :: "string \<Rightarrow> string" where
  "ascstr buf = map (\<lambda>b. if (32::nat) \<le> of_char b \<and> of_char b \<le> (126::nat) then b else CHR ''.'') buf"

fun monitor_step :: "read_result \<times> int \<Rightarrow> mon_state \<Rightarrow> mon_state" where
  "monitor_step (ReadError, now) s = s"
| "monitor_step (ReadBytes buf, now) s =
     (if length buf > 0
      then s\<lparr>out := out s @ [Received now (length buf) (hexstr buf) (ascstr buf)],
             last_activity := now\<rparr>
      else if now - last_activity s > 10
      then s\<lparr>out := out s @ [Heartbeat now], last_activity := now\<rparr>
      else s)"

text \<open>The turns of the loop made before the flag is cleared, in order.\<close>

fun monitor_loop :: "(read_result \<times> int) list \<Rightarrow> mon_state \<Rightarrow> mon_state" where
  "monitor_loop [] s = s"
| "monitor_loop (turn # turns) s = monitor_loop turns (monitor_step turn s)"

text \<open>\<^verbatim>\<open>time_t last_activity = time(NULL);\<close> before the loop.\<close>

definition monitor_start :: "int \<Rightarrow> mon_state" where
  "monitor_start t0 = \<lparr>last_activity = t0, out = []\<rparr>"

fun line_time :: "mon_line \<Rightarrow> int" where
  "line_time (Received t n h a) = t"
| "line_time (Heartbeat t) = t"

fun is_heartbeat :: "mon_line \<Rightarrow> bool" where
  "is_heartbeat (Heartbeat t) = True"
| "is_heartbeat (Received t n h a) = False"

text \<open>
  Every heartbeat line comes more than 10 seconds after every line printed before it.
\<close>

definition heartbeats_spaced :: "mon_line list \<Rightarrow> bool" where
  "heartbeats_spaced ls =
     (\<forall>j < length ls. is_heartbeat (ls ! j) \<longrightarrow>
        (\<forall>i < j. line_time (ls ! j) - line_time (ls ! i) > 10))"

text \<open>
  The invariant of the loop: the lines so far are spaced, and none is later than
  \<^verbatim>\<open>last_activity\<close>.
\<close>

definition mon_inv :: "mon_state \<Rightarrow> bool" where
  "mon_inv s \<longleftrightarrow> heartbeats_spaced (out s) \<and> (\<forall>l \<in> set (out s). line_time l \<le> last_activity s)"

section \<open>Properties of the codec\<close>

subsection \<open>The hexadecimal conversion\<close>

lemma hexchar_0: "hexchar 0 = CHR ''0''"
  by (simp add: hexchar_def)

lemma hexchar_not_nul: "d < 16 \<Longrightarrow> CHR 0x00 \<noteq> hexchar d"
proof -
  assume "d < 16"
  then have "hexchar d \<in> set ''0123456789ABCDEF''"
    unfolding hexchar_def by (intro nth_mem) simp
  then show ?thesis by auto
qed

lemma to_hex_small: "n < 16 \<Longrightarrow> to_hex n = [hexchar n]"
  by (simp add: to_hex.simps)

lemma to_hex_large: "16 \<le> n \<Longrightarrow> to_hex n = to_hex (n div 16) @ [hexchar (n mod 16)]"
  by (subst to_hex.simps) simp

lemma length_to_hex_pos: "0 < length (to_hex n)"
  by (subst to_hex.simps) simp

lemma hex_fixed_zero: "hex_fixed k 0 = replicate k (CHR ''0'')"
  by (induction k) (simp_all add: hexchar_0 replicate_append_same)

lemma length_hex_fixed: "length (hex_fixed k n) = k"
  by (induction k arbitrary: n) simp_all

lemma hex_fixed_no_nul: "CHR 0x00 \<notin> set (hex_fixed k n)"
  by (induction k arbitrary: n) (simp_all add: hexchar_not_nul)

lemma length_to_hex_ge: "16 ^ k \<le> n \<Longrightarrow> Suc k \<le> length (to_hex n)"
proof (induction k arbitrary: n)
  case 0
  show ?case using length_to_hex_pos [of n] by (simp add: Suc_le_eq)
next
  case (Suc k)
  then have big: "16 \<le> n"
    by (metis le_trans power_one_right power_increasing one_le_numeral Suc_le_mono le0 One_nat_def)
  from Suc.prems have "16 ^ k \<le> n div 16"
    by (simp add: less_eq_div_iff_mult_less_eq mult.commute)
  from Suc.IH [OF this] big show ?case
    by (simp add: to_hex_large)
qed

lemma sprintf_0X_fixed: "n < 16 ^ Suc k \<Longrightarrow> sprintf_0X (Suc k) n = hex_fixed (Suc k) n"
proof (induction k arbitrary: n)
  case 0
  then show ?case by (simp add: sprintf_0X_def to_hex_small)
next
  case (Suc k)
  show ?case
  proof (cases "n < 16")
    case True
    then show ?thesis
      by (simp add: sprintf_0X_def to_hex_small hex_fixed_zero hexchar_0 replicate_append_same)
  next
    case False
    from Suc.prems have small: "n div 16 < 16 ^ Suc k"
      by (simp add: less_mult_imp_div_less mult.commute)
    have "sprintf_0X (Suc (Suc k)) n = sprintf_0X (Suc k) (n div 16) @ [hexchar (n mod 16)]"
      using False by (simp add: sprintf_0X_def to_hex_large)
    with Suc.IH [OF small] show ?thesis by simp
  qed
qed

lemma sprintf_0X_wide: "16 ^ w \<le> n \<Longrightarrow> sprintf_0X w n = to_hex n"
  using length_to_hex_ge [of w n] by (simp add: sprintf_0X_def)

lemma sprintf_0X_2: "n < 256 \<Longrightarrow> sprintf_0X 2 n = hex_fixed 2 n"
  using sprintf_0X_fixed [of n 1] by (simp add: numeral_2_eq_2)

lemma sprintf_0X_4: "n < 65536 \<Longrightarrow> sprintf_0X 4 n = hex_fixed 4 n"
proof -
  assume "n < 65536"
  then have "n < 16 ^ Suc 3" by simp
  from sprintf_0X_fixed [OF this] show ?thesis by simp
qed

lemma sprintf_0X_4_long: "65536 \<le> n \<Longrightarrow> 5 \<le> length (sprintf_0X 4 n)"
  using length_to_hex_ge [of 4 n] sprintf_0X_wide [of 4 n] by simp

lemma sprintf_0X_4_full: "268435456 \<le> n \<Longrightarrow> n < 4294967296 \<Longrightarrow> sprintf_0X 4 n = hex_fixed 8 n"
proof -
  assume lo: "268435456 \<le> n" and hi: "n < 4294967296"
  from lo have "Suc 7 \<le> length (to_hex n)"
    by (intro length_to_hex_ge) simp
  then have "sprintf_0X 4 n = sprintf_0X (Suc 7) n"
    by (simp add: sprintf_0X_def)
  also from hi have "\<dots> = hex_fixed (Suc 7) n"
    by (intro sprintf_0X_fixed) simp
  finally show ?thesis by simp
qed

subsection \<open>C strings\<close>

lemma c_str_id: "CHR 0x00 \<notin> set str \<Longrightarrow> c_str str = str"
  unfolding c_str_def by (induction str) auto

lemma c_str_no_nul: "CHR 0x00 \<notin> set (c_str str)"
  unfolding c_str_def by (induction str) auto

lemma c_str_append: "CHR 0x00 \<notin> set a \<Longrightarrow> c_str (a @ b) = a @ c_str b"
  unfolding c_str_def by (induction a) auto

subsection \<open>The checksum\<close>

lemma checksum_loop_sum:
  "checksum_loop data acc = acc + word_of_nat (byte_sum (c_str data))"
  by (induction data arbitrary: acc) (simp_all add: byte_sum_def c_str_def of_nat_of_char)

lemma unat_low_byte: "unat ((w :: 32 word) AND 0xFF) = unat w mod 256"
proof -
  have "(w AND 0xFF) = take_bit 8 w"
    by (simp add: take_bit_eq_mask mask_eq_exp_minus_1)
  then show ?thesis
    by (simp add: take_bit_eq_mod unat_mod)
qed

lemma calculate_checksum_value:
  "unat (checksum_loop data 0 AND 0xFF) = byte_sum (c_str data) mod 256"
proof -
  have "unat (checksum_loop data 0 AND 0xFF) = (byte_sum (c_str data) mod 2 ^ 32) mod 256"
    by (simp add: unat_low_byte checksum_loop_sum unat_of_nat)
  also have "\<dots> = byte_sum (c_str data) mod 256"
    by (simp add: mod_mod_cancel)
  finally show ?thesis .
qed

lemma calculate_checksum_hex:
  "calculate_checksum data = hex_fixed 2 (byte_sum (c_str data) mod 256)"
  by (simp add: calculate_checksum_def calculate_checksum_value sprintf_0X_2)

lemma calculate_checksum_no_nul: "CHR 0x00 \<notin> set (calculate_checksum data)"
  by (simp only: calculate_checksum_hex hex_fixed_no_nul not_False_eq_True)

text \<open>
  C2.  For every data part, as the C string that \<^verbatim>\<open>calculate_checksum\<close> reads, the
  checksum is the sum of the byte values modulo 256 written as exactly two uppercase
  hexadecimal digits, zero-padded; a data part whose bytes sum to 256 gives \<open>''00''\<close>.
\<close>

theorem calculate_checksum_mod256:
  "calculate_checksum data = hex_fixed 2 (byte_sum (c_str data) mod 256)
   \<and> calculate_checksum data =
       [hexchar (byte_sum (c_str data) mod 256 div 16), hexchar (byte_sum (c_str data) mod 16)]
   \<and> length (calculate_checksum data) = 2
   \<and> (byte_sum (c_str data) = 256 \<longrightarrow> calculate_checksum data = ''00'')"
proof -
  have m: "byte_sum (c_str data) mod 256 mod 16 = byte_sum (c_str data) mod 16"
    by (simp add: mod_mod_cancel)
  show ?thesis
    using m by (auto simp add: calculate_checksum_hex numeral_2_eq_2 hexchar_0)
qed

theorem calculate_checksum_mod256_witness:
  "byte_sum (c_str ''@@@@'') = 256 \<and> calculate_checksum ''@@@@'' = ''00''"
proof -
  have s: "byte_sum (c_str ''@@@@'') = 256"
    by (simp add: byte_sum_def c_str_def)
  with calculate_checksum_mod256 [of "''@@@@''"] show ?thesis
    by (simp add: numeral_2_eq_2 hexchar_0)
qed

subsection \<open>Signed and unsigned readings of a floor number\<close>

lemma sint_32_cases:
  fixes w :: "32 word"
  shows "sint w = (if uint w < 2147483648 then uint w else uint w - 4294967296)"
proof -
  have b: "0 \<le> uint w" "uint w < 4294967296"
    using uint_bounded [of w] by simp_all
  have "sint w = (uint w + 2147483648) mod 4294967296 - 2147483648"
    by (simp add: sint_uint signed_take_bit_eq_take_bit_shift take_bit_eq_mod)
  also have "\<dots> = (if uint w < 2147483648 then uint w else uint w - 4294967296)"
  proof (cases "uint w < 2147483648")
    case True
    with b have "(uint w + 2147483648) mod 4294967296 = uint w + 2147483648"
      by (intro mod_pos_pos_trivial) simp_all
    with True show ?thesis by simp
  next
    case False
    with b have "(uint w + 2147483648 - 4294967296) mod 4294967296 = uint w + 2147483648 - 4294967296"
      by (intro mod_pos_pos_trivial) simp_all
    then have "(uint w + 2147483648) mod 4294967296 = uint w + 2147483648 - 4294967296"
      by (simp only: minus_mod_self2)
    with False show ?thesis by simp
  qed
  finally show ?thesis .
qed

lemma floor_in_range_iff:
  fixes floor :: "32 word"
  shows "(0 \<le> sint floor \<and> sint floor \<le> 65535) \<longleftrightarrow> unat floor < 65536"
proof -
  have b: "0 \<le> uint floor" by simp
  have "(0 \<le> sint floor \<and> sint floor \<le> 65535) \<longleftrightarrow> uint floor < 65536"
    using b uint_bounded [of floor] by (auto simp add: sint_32_cases split: if_splits)
  also have "\<dots> \<longleftrightarrow> unat floor < 65536"
  proof -
    have "uint floor = int (unat floor)" by simp
    then show ?thesis by linarith
  qed
  finally show ?thesis .
qed

lemma floor_in_range_value:
  fixes floor :: "32 word"
  shows "0 \<le> sint floor \<Longrightarrow> nat (sint floor) = unat floor"
  using uint_bounded [of floor] by (auto simp add: sint_32_cases split: if_splits)

lemma floor_negative_unat:
  fixes floor :: "32 word"
  shows "sint floor < 0 \<Longrightarrow> 2147483648 \<le> unat floor"
proof -
  assume "sint floor < 0"
  then have "2147483648 \<le> uint floor"
    by (auto simp add: sint_32_cases split: if_splits)
  moreover have "uint floor = int (unat floor)" by simp
  ultimately show ?thesis by linarith
qed

lemma unat_32_bound: "unat (floor :: 32 word) < 4294967296"
  using unsigned_less [of floor, where ?'a = nat] by simp

lemma unat_ucast_16: "unat (ucast (floor :: 32 word) :: 16 word) = unat floor mod 65536"
  by (simp add: unsigned_ucast_eq take_bit_eq_mod)


subsection \<open>Evaluating the reference rendering on numerals\<close>

lemma hex_fixed_numeral:
  "hex_fixed (numeral k) n = hex_fixed (pred_numeral k) (n div 16) @ [hexchar (n mod 16)]"
  by (simp only: numeral_eq_Suc [of k] hex_fixed.simps)

lemma hex_fixed_1: "hex_fixed 1 n = [hexchar (n mod 16)]"
  by simp

lemmas hex_eval = hex_fixed_numeral hex_fixed_1 hexchar_def

subsection \<open>Floor encoding and frame layout\<close>

lemma floor_to_hex_in_range:
  assumes "0 \<le> sint floor" "sint floor \<le> 65535"
  shows "floor_to_hex floor = hex_fixed 4 (unat floor)"
proof -
  from assms have u: "unat floor < 65536"
    by (simp add: floor_in_range_iff [symmetric])
  from assms have "floor \<noteq> - 1"
    by auto
  with u show ?thesis
    by (simp add: floor_to_hex_def sprintf_0X_4)
qed

lemma floor_to_hex_negative:
  assumes "sint floor < 0" "floor \<noteq> - 1"
  shows "floor_to_hex floor = hex_fixed 8 (unat floor)"
  using assms floor_negative_unat [of floor] unat_32_bound [of floor]
  by (simp add: floor_to_hex_def sprintf_0X_4_full)

lemma floor_to_hex_length_4:
  "length (floor_to_hex floor) = 4 \<longleftrightarrow> floor = - 1 \<or> (0 \<le> sint floor \<and> sint floor \<le> 65535)"
proof (cases "floor = - 1")
  case True
  then show ?thesis by (simp add: floor_to_hex_def)
next
  case False
  show ?thesis
  proof (cases "unat floor < 65536")
    case True
    with False show ?thesis
      by (simp add: floor_in_range_iff floor_to_hex_def sprintf_0X_4 length_hex_fixed)
  next
    case False
    then have "5 \<le> length (sprintf_0X 4 (unat floor))"
      by (intro sprintf_0X_4_long) simp
    with False \<open>floor \<noteq> - 1\<close> show ?thesis
      by (simp add: floor_in_range_iff floor_to_hex_def)
  qed
qed

text \<open>
  C7.  \<^verbatim>\<open>floor_to_hex\<close> maps \<open>-1\<close> to \<open>''FFFF''\<close>; every floor from 0 to 65535 is
  mapped to the four zero-padded uppercase hexadecimal digits of its unsigned 16-bit
  encoding; in particular floor 2 gives \<open>''0002''\<close>.
\<close>

theorem floor_to_hex_encoding:
  "floor_to_hex (- 1) = ''FFFF''
   \<and> (0 \<le> sint floor \<and> sint floor \<le> 65535 \<longrightarrow>
        floor_to_hex floor = hex_fixed 4 (unat (ucast floor :: 16 word))
        \<and> unat (ucast floor :: 16 word) = nat (sint floor))
   \<and> floor_to_hex 2 = ''0002''"
proof -
  have a: "floor_to_hex (- 1) = ''FFFF''"
    by (simp add: floor_to_hex_def)
  have b: "floor_to_hex floor = hex_fixed 4 (unat (ucast floor :: 16 word))
        \<and> unat (ucast floor :: 16 word) = nat (sint floor)"
    if r: "0 \<le> sint floor" "sint floor \<le> 65535"
  proof -
    from r have "unat floor < 65536"
      by (simp add: floor_in_range_iff [symmetric])
    then have "unat (ucast floor :: 16 word) = unat floor"
      by (simp add: unat_ucast_16)
    with r show ?thesis
      by (simp add: floor_to_hex_in_range floor_in_range_value)
  qed
  have "floor_to_hex 2 = hex_fixed 4 (unat (2 :: 32 word))"
    by (intro floor_to_hex_in_range) simp_all
  then have c: "floor_to_hex 2 = ''0002''"
    by (simp add: hex_eval)
  from a b c show ?thesis by blast
qed

theorem floor_to_hex_encoding_witness:
  "0 \<le> sint (3 :: 32 word) \<and> sint (3 :: 32 word) \<le> 65535 \<and> floor_to_hex 3 = ''0003''"
proof -
  have r: "0 \<le> sint (3 :: 32 word) \<and> sint (3 :: 32 word) \<le> 65535" by simp
  have "hex_fixed 4 3 = ''0003''" by (simp add: hex_eval)
  with r floor_to_hex_encoding [of 3] show ?thesis by simp
qed

text \<open>
  C10.  The result of \<^verbatim>\<open>floor_to_hex\<close> has exactly four characters only for \<open>-1\<close> and
  for the floors from 0 to 65535.  For every other negative floor it is the full eight
  digits of the unsigned 32-bit value, which neither the four-character wire field nor
  the five-byte buffer \<^verbatim>\<open>cur_hex\<close> of \<^verbatim>\<open>wmain\<close> holds; such a floor reaches
  \<^verbatim>\<open>floor_to_hex\<close> as the start floor \<^verbatim>\<open>_wtoi(argv[2])\<close>.
\<close>

theorem floor_to_hex_width:
  "(length (floor_to_hex floor) = 4 \<longleftrightarrow>
      floor = - 1 \<or> (0 \<le> sint floor \<and> sint floor \<le> 65535))
   \<and> (sint floor < 0 \<and> floor \<noteq> - 1 \<longrightarrow>
        floor_to_hex floor = hex_fixed 8 (unat floor)
        \<and> length (floor_to_hex floor) = 8
        \<and> \<not> fits_hex_buffer (floor_to_hex floor)
        \<and> cycle_body e target_floor (initial_state floor) = BufferOverrun)"
proof -
  have "cycle_body e target_floor (initial_state floor) = BufferOverrun"
    if "\<not> fits_hex_buffer (floor_to_hex floor)"
    using that by (simp add: cycle_body_def Let_def printf_def initial_state_def)
  then show ?thesis
    by (auto simp add: floor_to_hex_length_4 floor_to_hex_negative length_hex_fixed
        fits_hex_buffer_def)
qed

theorem floor_to_hex_width_witness:
  "sint (- 2 :: 32 word) < 0 \<and> (- 2 :: 32 word) \<noteq> - 1 \<and> floor_to_hex (- 2) = ''FFFFFFFE''
   \<and> length (floor_to_hex (- 2)) = 8 \<and> \<not> fits_hex_buffer (floor_to_hex (- 2))"
proof -
  have r: "sint (- 2 :: 32 word) < 0 \<and> (- 2 :: 32 word) \<noteq> - 1" by simp
  have "hex_fixed 8 (unat (- 2 :: 32 word)) = ''FFFFFFFE''" by (simp add: hex_eval)
  with r floor_to_hex_width [of "- 2"] show ?thesis by (simp add: fits_hex_buffer_def)
qed

lemma enq_data_part_plain:
  assumes "CHR 0x00 \<notin> set dataNum" "CHR 0x00 \<notin> set dataValue"
  shows "enq_data_part dataNum dataValue = ''0002'' @ ''W'' @ dataNum @ dataValue"
  using assms by (simp add: enq_data_part_def station_def cmd_def c_str_id)

lemma enq_data_part_no_nul: "CHR 0x00 \<notin> set (enq_data_part dataNum dataValue)"
  using c_str_no_nul [of dataNum] c_str_no_nul [of dataValue]
  by (simp add: enq_data_part_def station_def cmd_def) (simp add: c_str_def)

lemma enq_message_layout:
  "enq_message dataNum dataValue =
     CHR 0x05 # enq_data_part dataNum dataValue
       @ calculate_checksum (enq_data_part dataNum dataValue)"
proof -
  let ?d = "enq_data_part dataNum dataValue"
  have "CHR 0x00 \<notin> set (CHR 0x05 # ?d @ calculate_checksum ?d)"
    using enq_data_part_no_nul [of dataNum dataValue] calculate_checksum_no_nul [of ?d]
    by simp
  then have "c_str (CHR 0x05 # ?d @ calculate_checksum ?d) = CHR 0x05 # ?d @ calculate_checksum ?d"
    by (rule c_str_id)
  then show ?thesis
    using enq_data_part_no_nul [of dataNum dataValue] calculate_checksum_no_nul [of ?d]
    by (simp add: enq_message_def Let_def c_str_id)
qed

lemma trace_send_enq:
  "trace (send_enq e dataNum dataValue s) =
     trace s @ [(clock s, EvWrite (write_ok e (clock s)) (enq_message dataNum dataValue))]"
  by (simp add: send_enq_def Let_def printf_def)

text \<open>
  C1.  The frame that \<^verbatim>\<open>send_enq\<close> hands to \<^verbatim>\<open>WriteFile\<close> is the byte 0x05, the
  thirteen characters station, command, data number and data value (the two fields
  being four characters wide), and the two checksum digits; the telegram with data
  number \<open>''0001''\<close> and data value \<open>''0001''\<close> is the sixteen bytes listed, with
  checksum digits \<open>9\<close> and \<open>B\<close>.
\<close>

theorem send_enq_frame:
  "(length dataNum = 4 \<and> length dataValue = 4
      \<and> CHR 0x00 \<notin> set dataNum \<and> CHR 0x00 \<notin> set dataValue \<longrightarrow>
      enq_message dataNum dataValue =
        CHR 0x05 # (''0002'' @ ''W'' @ dataNum @ dataValue)
          @ hex_fixed 2 (byte_sum (''0002'' @ ''W'' @ dataNum @ dataValue) mod 256)
      \<and> length (''0002'' @ ''W'' @ dataNum @ dataValue) = 13
      \<and> length (enq_message dataNum dataValue) = 16)
   \<and> trace (send_enq e dataNum dataValue s) =
       trace s @ [(clock s, EvWrite (write_ok e (clock s)) (enq_message dataNum dataValue))]
   \<and> enq_message ''0001'' ''0001'' =
       [CHR 0x05, CHR ''0'', CHR ''0'', CHR ''0'', CHR ''2'', CHR ''W'',
        CHR ''0'', CHR ''0'', CHR ''0'', CHR ''1'', CHR ''0'', CHR ''0'', CHR ''0'', CHR ''1'',
        CHR ''9'', CHR ''B'']"
proof -
  have ex: "enq_message ''0001'' ''0001'' = CHR 0x05 # ''0002W00010001'' @ ''9B''"
    by (simp add: enq_message_def enq_data_part_def station_def cmd_def c_str_def
        calculate_checksum_hex byte_sum_def hex_eval)
  have gen: "enq_message dataNum dataValue =
        CHR 0x05 # (''0002'' @ ''W'' @ dataNum @ dataValue)
          @ hex_fixed 2 (byte_sum (''0002'' @ ''W'' @ dataNum @ dataValue) mod 256)"
    if "CHR 0x00 \<notin> set dataNum" "CHR 0x00 \<notin> set dataValue"
  proof -
    have d: "enq_data_part dataNum dataValue = ''0002'' @ ''W'' @ dataNum @ dataValue"
      using that by (rule enq_data_part_plain)
    have n: "CHR 0x00 \<notin> set (''0002'' @ ''W'' @ dataNum @ dataValue)"
      using enq_data_part_no_nul [of dataNum dataValue] unfolding d .
    show ?thesis
      unfolding enq_message_layout d calculate_checksum_hex c_str_id [OF n] ..
  qed
  show ?thesis
    using ex gen by (auto simp add: trace_send_enq length_hex_fixed simp del: hex_fixed.simps)
qed

theorem send_enq_frame_witness:
  "length ''0002'' = 4 \<and> length ''1234'' = 4
   \<and> CHR 0x00 \<notin> set ''0002'' \<and> CHR 0x00 \<notin> set ''1234''
   \<and> enq_message ''0002'' ''1234'' = CHR 0x05 # ''0002W00021234'' @ ''A5''"
proof -
  have h: "length ''0002'' = 4 \<and> length ''1234'' = 4
     \<and> CHR 0x00 \<notin> set ''0002'' \<and> CHR 0x00 \<notin> set ''1234''"
    by simp
  have "hex_fixed 2 (byte_sum (''0002'' @ ''W'' @ ''0002'' @ ''1234'') mod 256) = ''A5''"
    by (simp add: byte_sum_def hex_eval)
  with h send_enq_frame [of "''0002''" "''1234''"] show ?thesis
    by simp
qed

section \<open>Properties of the serial monitor\<close>

lemma heartbeats_spaced_snoc:
  "heartbeats_spaced (ls @ [l]) \<longleftrightarrow>
     heartbeats_spaced ls \<and> (is_heartbeat l \<longrightarrow> (\<forall>x \<in> set ls. line_time l - line_time x > 10))"
proof
  assume a: "heartbeats_spaced (ls @ [l])"
  have "heartbeats_spaced ls"
    unfolding heartbeats_spaced_def
  proof (intro allI impI)
    fix j i assume "j < length ls" "is_heartbeat (ls ! j)" "i < j"
    with a [unfolded heartbeats_spaced_def, rule_format, of j i]
    show "10 < line_time (ls ! j) - line_time (ls ! i)"
      by (simp add: nth_append)
  qed
  moreover have "\<forall>x \<in> set ls. line_time l - line_time x > 10" if "is_heartbeat l"
  proof
    fix x assume "x \<in> set ls"
    then obtain i where "i < length ls" "ls ! i = x"
      by (auto simp add: in_set_conv_nth)
    with a [unfolded heartbeats_spaced_def, rule_format, of "length ls" i] that
    show "10 < line_time l - line_time x"
      by (simp add: nth_append)
  qed
  ultimately show "heartbeats_spaced ls \<and> (is_heartbeat l \<longrightarrow> (\<forall>x \<in> set ls. line_time l - line_time x > 10))"
    by blast
next
  assume b: "heartbeats_spaced ls \<and> (is_heartbeat l \<longrightarrow> (\<forall>x \<in> set ls. line_time l - line_time x > 10))"
  show "heartbeats_spaced (ls @ [l])"
    unfolding heartbeats_spaced_def
  proof (intro allI impI)
    fix j i assume j: "j < length (ls @ [l])" and h: "is_heartbeat ((ls @ [l]) ! j)" and i: "i < j"
    show "10 < line_time ((ls @ [l]) ! j) - line_time ((ls @ [l]) ! i)"
    proof (cases "j < length ls")
      case True
      with b [THEN conjunct1, unfolded heartbeats_spaced_def, rule_format, of j i] h i
      show ?thesis by (simp add: nth_append)
    next
      case False
      with j have jl: "j = length ls" by simp
      with i have "ls ! i \<in> set ls" by simp
      with b h jl i show ?thesis by (simp add: nth_append)
    qed
  qed
qed


lemma monitor_step_inv:
  assumes "mon_inv s" "last_activity s \<le> now"
  shows "mon_inv (monitor_step (r, now) s)
         \<and> last_activity (monitor_step (r, now) s) \<le> now"
proof (cases r)
  case ReadError
  with assms show ?thesis by simp
next
  case (ReadBytes buf)
  with assms show ?thesis
    by (fastforce simp add: mon_inv_def heartbeats_spaced_snoc)
qed

lemma monitor_loop_inv:
  assumes "mon_inv s" "sorted (map snd turns)" "\<forall>t \<in> set (map snd turns). last_activity s \<le> t"
  shows "mon_inv (monitor_loop turns s)"
  using assms
proof (induction turns arbitrary: s)
  case Nil
  then show ?case by simp
next
  case (Cons turn turns)
  obtain r now where turn: "turn = (r, now)" by (cases turn)
  from Cons.prems turn have le: "last_activity s \<le> now" by simp
  from monitor_step_inv [OF Cons.prems(1) le, of r]
  have inv: "mon_inv (monitor_step turn s)"
    and la: "last_activity (monitor_step turn s) \<le> now"
    by (simp_all add: turn)
  from Cons.prems(2) turn have srt: "sorted (map snd turns)" and "\<forall>t \<in> set (map snd turns). now \<le> t"
    by simp_all
  with la have "\<forall>t \<in> set (map snd turns). last_activity (monitor_step turn s) \<le> t"
    by fastforce
  from Cons.IH [OF inv srt this] show ?case by simp
qed

text \<open>
  C8.  In \<^verbatim>\<open>monitor_serial\<close>, a read of zero bytes prints a heartbeat line only if more
  than 10 seconds have passed since \<^verbatim>\<open>last_activity\<close>, and printing it sets
  \<^verbatim>\<open>last_activity\<close> to now; a read of \<open>n > 0\<close> bytes is logged at once and sets
  \<^verbatim>\<open>last_activity\<close> to now.  Hence, with a clock that does not run backwards, every
  heartbeat comes more than 10 seconds after every earlier line: at most one per
  10-second idle window.
\<close>

theorem monitor_heartbeat_window:
  "monitor_step (ReadBytes [], now) s =
     (if now - last_activity s > 10
      then s\<lparr>out := out s @ [Heartbeat now], last_activity := now\<rparr>
      else s)
   \<and> (buf \<noteq> [] \<longrightarrow>
        monitor_step (ReadBytes buf, now) s =
          s\<lparr>out := out s @ [Received now (length buf) (hexstr buf) (ascstr buf)],
            last_activity := now\<rparr>)
   \<and> (sorted (map snd turns) \<and> (\<forall>t \<in> set (map snd turns). t0 \<le> t) \<longrightarrow>
        heartbeats_spaced (out (monitor_loop turns (monitor_start t0))))"
proof -
  have "mon_inv (monitor_start t0)"
    by (simp add: mon_inv_def monitor_start_def heartbeats_spaced_def)
  from monitor_loop_inv [OF this, of turns]
  have "heartbeats_spaced (out (monitor_loop turns (monitor_start t0)))"
    if "sorted (map snd turns)" "\<forall>t \<in> set (map snd turns). t0 \<le> t"
    using that by (simp add: mon_inv_def monitor_start_def)
  then show ?thesis by simp
qed

theorem monitor_heartbeat_window_witness:
  "''A'' \<noteq> []
   \<and> sorted (map snd [(ReadBytes [], 5 :: int), (ReadBytes [], 11), (ReadBytes [], 12),
        (ReadBytes ''A'', 20), (ReadBytes [], 30), (ReadError, 30), (ReadBytes [], 31),
        (ReadBytes [], 42)])
   \<and> out (monitor_loop [(ReadBytes [], 5), (ReadBytes [], 11), (ReadBytes [], 12),
        (ReadBytes ''A'', 20), (ReadBytes [], 30), (ReadError, 30), (ReadBytes [], 31),
        (ReadBytes [], 42)] (monitor_start 0))
       = [Heartbeat 11, Received 20 1 ''41'' ''A'', Heartbeat 31, Heartbeat 42]
   \<and> 10 < line_time (out (monitor_loop [(ReadBytes [], 5), (ReadBytes [], 11),
        (ReadBytes [], 12), (ReadBytes ''A'', 20), (ReadBytes [], 30), (ReadError, 30),
        (ReadBytes [], 31), (ReadBytes [], 42)] (monitor_start 0)) ! 3)
      - line_time (out (monitor_loop [(ReadBytes [], 5), (ReadBytes [], 11),
        (ReadBytes [], 12), (ReadBytes ''A'', 20), (ReadBytes [], 30), (ReadError, 30),
        (ReadBytes [], 31), (ReadBytes [], 42)] (monitor_start 0)) ! 2)"
proof -
  let ?turns = "[(ReadBytes [], 5 :: int), (ReadBytes [], 11), (ReadBytes [], 12),
        (ReadBytes ''A'', 20), (ReadBytes [], 30), (ReadError, 30), (ReadBytes [], 31),
        (ReadBytes [], 42)]"
  let ?out = "out (monitor_loop ?turns (monitor_start 0))"
  have h: "sorted (map snd ?turns) \<and> (\<forall>t \<in> set (map snd ?turns). 0 \<le> t)"
    by simp
  have o: "?out = [Heartbeat 11, Received 20 1 ''41'' ''A'', Heartbeat 31, Heartbeat 42]"
    by (simp add: monitor_start_def hexstr_def ascstr_def sprintf_0X_2 hex_eval)
  from monitor_heartbeat_window [of 0 "monitor_start 0" "''A''" ?turns 0] h
  have "heartbeats_spaced ?out" by blast
  then have "3 < length ?out \<longrightarrow> is_heartbeat (?out ! 3)
      \<longrightarrow> 10 < line_time (?out ! 3) - line_time (?out ! 2)"
    unfolding heartbeats_spaced_def by simp
  with o have "10 < line_time (?out ! 3) - line_time (?out ! 2)"
    by simp
  with h o show ?thesis by simp
qed

section \<open>Properties of the scenario loop\<close>

subsection \<open>State accessors and the two kinds of loop\<close>

lemma running_eq: "running e s = running_at e (clock s)"
  by (simp add: running_def running_at_def)

lemma running_at_mono: "running_at e t \<Longrightarrow> t' \<le> t \<Longrightarrow> running_at e t'"
  by (auto simp add: running_at_def split: option.splits)

lemma running_within: "running_at e t \<Longrightarrow> within_ms e d (t + d)"
  by (auto simp add: running_at_def within_ms_def split: option.splits)

lemma within_ms_mono: "within_ms e d t \<Longrightarrow> d \<le> d' \<Longrightarrow> within_ms e d' t"
  by (auto simp add: within_ms_def split: option.splits)

lemma Sleep_fields [simp]:
  "clock (Sleep ms s) = clock s + ms"
  "trace (Sleep ms s) = trace s @ [(clock s, EvSleep ms)]"
  "current_floor (Sleep ms s) = current_floor s"
  "rand_calls (Sleep ms s) = rand_calls s"
  "console (Sleep ms s) = console s"
  by (simp_all add: Sleep_def)

lemma printf_fields [simp]:
  "clock (printf l s) = clock s"
  "trace (printf l s) = trace s"
  "current_floor (printf l s) = current_floor s"
  "rand_calls (printf l s) = rand_calls s"
  "console (printf l s) = console s @ [l]"
  by (simp_all add: printf_def)

lemma send_enq_fields [simp]:
  "clock (send_enq e dataNum dataValue s) = clock s"
  "trace (send_enq e dataNum dataValue s) =
     trace s @ [(clock s, EvWrite (write_ok e (clock s)) (enq_message dataNum dataValue))]"
  "current_floor (send_enq e dataNum dataValue s) = current_floor s"
  "rand_calls (send_enq e dataNum dataValue s) = rand_calls s"
  by (simp_all add: send_enq_def Let_def)

lemma writes_append: "writes (xs @ ys) = writes xs @ writes ys"
  by (induction xs rule: writes.induct) simp_all

lemma begun_while_running_Nil [simp]: "begun_while_running e []"
  by (simp add: begun_while_running_def)

lemma begun_while_running_append:
  "begun_while_running e (xs @ ys) \<longleftrightarrow> begun_while_running e xs \<and> begun_while_running e ys"
  by (auto simp add: begun_while_running_def)

lemma advances_refl [simp]: "advances e s s"
  by (simp add: advances_def)

lemma advances_trans: "advances e s s' \<Longrightarrow> advances e s' s'' \<Longrightarrow> advances e s s''"
  unfolding advances_def
  by (metis append.assoc le_trans begun_while_running_append)

lemma advances_Sleep:
  "running e s \<Longrightarrow> ms = 1000 \<or> ms = 3000 \<Longrightarrow> advances e s (Sleep ms s)"
  by (simp add: advances_def begun_while_running_def running_eq)

lemma advances_printf: "advances e s (printf l s)"
  by (simp add: advances_def)

lemma advances_send_enq: "running e s \<Longrightarrow> advances e s (send_enq e dataNum dataValue s)"
  by (simp add: advances_def begun_while_running_def running_eq)

lemma advances_floor: "advances e s (s\<lparr>current_floor := f\<rparr>)"
  by (simp add: advances_def)

lemma advances_rand: "advances e s (s\<lparr>rand_calls := k\<rparr>)"
  by (simp add: advances_def)

lemma running_printf [simp]: "running e (printf l s) = running e s"
  by (simp add: running_eq)

lemma running_send_enq [simp]: "running e (send_enq e dataNum dataValue s) = running e s"
  by (simp add: running_eq)

lemma running_rand [simp]: "running e (s\<lparr>rand_calls := k\<rparr>) = running e s"
  by (simp add: running_eq)

lemma send_loop_step:
  "i < 5 \<Longrightarrow> running e s \<Longrightarrow>
     send_loop e dataNum dataValue i s =
       send_loop e dataNum dataValue (Suc i) (Sleep 1000 (send_enq e dataNum dataValue s))"
  by (subst send_loop.simps) simp

lemma send_loop_stop: "\<not> (i < 5 \<and> running e s) \<Longrightarrow> send_loop e dataNum dataValue i s = s"
  by (subst send_loop.simps) auto

lemma wait_loop_step: "i < 10 \<Longrightarrow> running e s \<Longrightarrow> wait_loop e i s = wait_loop e (Suc i) (Sleep 1000 s)"
  by (subst wait_loop.simps) simp

lemma wait_loop_stop: "\<not> (i < 10 \<and> running e s) \<Longrightarrow> wait_loop e i s = s"
  by (subst wait_loop.simps) auto

lemma send_loop_keeps [simp]:
  "current_floor (send_loop e dataNum dataValue i s) = current_floor s"
  "rand_calls (send_loop e dataNum dataValue i s) = rand_calls s"
  by (induction e dataNum dataValue i s rule: send_loop.induct; subst send_loop.simps; simp)+

lemma wait_loop_keeps [simp]:
  "current_floor (wait_loop e i s) = current_floor s"
  "rand_calls (wait_loop e i s) = rand_calls s"
  "console (wait_loop e i s) = console s"
  by (induction e i s rule: wait_loop.induct; subst wait_loop.simps; simp)+

lemma advances_send_loop: "advances e s (send_loop e dataNum dataValue i s)"
proof (induction e dataNum dataValue i s rule: send_loop.induct)
  case (1 e dataNum dataValue i s)
  show ?case
  proof (cases "i < 5 \<and> running e s")
    case True
    then have "advances e s (Sleep 1000 (send_enq e dataNum dataValue s))"
      by (intro advances_trans [OF advances_send_enq advances_Sleep]) simp_all
    with 1 True show ?thesis
      by (auto simp add: send_loop_step intro: advances_trans)
  next
    case False
    then show ?thesis by (simp add: send_loop_stop)
  qed
qed

lemma advances_wait_loop: "advances e s (wait_loop e i s)"
proof (induction e i s rule: wait_loop.induct)
  case (1 e i s)
  show ?case
  proof (cases "i < 10 \<and> running e s")
    case True
    then have "advances e s (Sleep 1000 s)"
      by (intro advances_Sleep) simp_all
    with 1 True show ?thesis
      by (auto simp add: wait_loop_step intro: advances_trans)
  next
    case False
    then show ?thesis by (simp add: wait_loop_stop)
  qed
qed

text \<open>A loop either does not sleep at all or ends less than a second after the flag was cleared.\<close>

lemma send_loop_late:
  "clock (send_loop e dataNum dataValue i s) = clock s
   \<or> within_ms e 1000 (clock (send_loop e dataNum dataValue i s))"
proof (induction e dataNum dataValue i s rule: send_loop.induct)
  case (1 e dataNum dataValue i s)
  show ?case
  proof (cases "i < 5 \<and> running e s")
    case True
    then have "within_ms e 1000 (clock (Sleep 1000 (send_enq e dataNum dataValue s)))"
      by (simp add: running_eq running_within)
    with 1 True show ?thesis
      by (auto simp add: send_loop_step)
  next
    case False
    then show ?thesis by (simp add: send_loop_stop)
  qed
qed

lemma wait_loop_late:
  "clock (wait_loop e i s) = clock s \<or> within_ms e 1000 (clock (wait_loop e i s))"
proof (induction e i s rule: wait_loop.induct)
  case (1 e i s)
  show ?case
  proof (cases "i < 10 \<and> running e s")
    case True
    then have "within_ms e 1000 (clock (Sleep 1000 s))"
      by (simp add: running_eq running_within)
    with 1 True show ?thesis
      by (auto simp add: wait_loop_step)
  next
    case False
    then show ?thesis by (simp add: wait_loop_stop)
  qed
qed

text \<open>A loop that ends with the flag still set has made all its turns.\<close>

lemma send_loop_complete:
  "running e (send_loop e dataNum dataValue i s) \<Longrightarrow> i \<le> 5 \<Longrightarrow>
     clock (send_loop e dataNum dataValue i s) = clock s + 1000 * (5 - i)
     \<and> trace (send_loop e dataNum dataValue i s) =
         trace s @ timeline e (clock s)
           (concat (replicate (5 - i) [DoSend dataNum dataValue, DoWait 1000]))"
proof (induction e dataNum dataValue i s rule: send_loop.induct)
  case (1 e dataNum dataValue i s)
  show ?case
  proof (cases "i < 5")
    case True
    have r: "running e s"
      using advances_send_loop [of e s dataNum dataValue i] "1.prems"(1)
      by (auto simp add: running_eq advances_def intro: running_at_mono)
    from True have n: "5 - i = Suc (5 - Suc i)" by simp
    from 1 True r show ?thesis
      by (simp add: send_loop_step n)
  next
    case False
    with "1.prems" show ?thesis by (simp add: send_loop_stop)
  qed
qed

lemma wait_loop_complete:
  "running e (wait_loop e i s) \<Longrightarrow> i \<le> 10 \<Longrightarrow>
     clock (wait_loop e i s) = clock s + 1000 * (10 - i)
     \<and> trace (wait_loop e i s) =
         trace s @ timeline e (clock s) (replicate (10 - i) (DoWait 1000))"
proof (induction e i s rule: wait_loop.induct)
  case (1 e i s)
  show ?case
  proof (cases "i < 10")
    case True
    have r: "running e s"
      using advances_wait_loop [of e s i] "1.prems"(1)
      by (auto simp add: running_eq advances_def intro: running_at_mono)
    from True have n: "10 - i = Suc (10 - Suc i)" by simp
    from 1 True r show ?thesis
      by (simp add: wait_loop_step n)
  next
    case False
    with "1.prems" show ?thesis by (simp add: wait_loop_stop)
  qed
qed


text \<open>Sharper: a loop either does nothing or ends less than a second after the flag was cleared.\<close>

lemma send_loop_same_or_late:
  "send_loop e dataNum dataValue i s = s
   \<or> within_ms e 1000 (clock (send_loop e dataNum dataValue i s))"
proof (cases "i < 5 \<and> running e s")
  case True
  then have "within_ms e 1000 (clock (Sleep 1000 (send_enq e dataNum dataValue s)))"
    by (simp add: running_eq running_within)
  with send_loop_late [of e dataNum dataValue "Suc i" "Sleep 1000 (send_enq e dataNum dataValue s)"]
    True show ?thesis
    by (auto simp add: send_loop_step)
next
  case False
  then show ?thesis by (simp add: send_loop_stop)
qed

lemma wait_loop_same_or_late:
  "wait_loop e i s = s \<or> within_ms e 1000 (clock (wait_loop e i s))"
proof (cases "i < 10 \<and> running e s")
  case True
  then have "within_ms e 1000 (clock (Sleep 1000 s))"
    by (simp add: running_eq running_within)
  with wait_loop_late [of e "Suc i" "Sleep 1000 s"] True show ?thesis
    by (auto simp add: wait_loop_step)
next
  case False
  then show ?thesis by (simp add: wait_loop_stop)
qed
subsection \<open>Selecting the target floor\<close>


lemma floors_nth_mem: "floors ! (r mod num_floors) \<in> set floors"
  by (rule nth_mem) (simp add: num_floors_def floors_def)


lemma select_target_result:
  assumes "select_target e cur k = Some y"
  shows "fst y \<in> set floors \<and> fst y \<noteq> cur \<and> k < snd y"
proof (rule select_target.raw_induct
    [where P = "\<lambda>e cur k y. fst y \<in> set floors \<and> fst y \<noteq> cur \<and> k < snd y"])
  fix f :: "env \<Rightarrow> c_int \<Rightarrow> nat \<Rightarrow> (c_int \<times> nat) option" and e' cur' k' y'
  assume IH: "\<And>e cur k y. f e cur k = Some y \<Longrightarrow>
      fst y \<in> set floors \<and> fst y \<noteq> cur \<and> k < snd y"
    and eq: "(if floors ! (rand_seq e' k' mod num_floors) = cur'
      then f e' cur' (Suc k')
      else Some (floors ! (rand_seq e' k' mod num_floors), Suc k')) = Some y'"
  show "fst y' \<in> set floors \<and> fst y' \<noteq> cur' \<and> k' < snd y'"
  proof (cases "floors ! (rand_seq e' k' mod num_floors) = cur'")
    case True
    with eq have "f e' cur' (Suc k') = Some y'" by simp
    from IH [OF this] show ?thesis by simp
  next
    case False
    with eq show ?thesis by (auto simp add: floors_nth_mem)
  qed
next
  show "select_target e cur k = Some y" by fact
qed

lemma select_target_sound:
  "select_target e cur k = Some (t, k') \<Longrightarrow> t \<in> set floors \<and> t \<noteq> cur \<and> k < k'"
  using select_target_result [of e cur k "(t, k')"] by simp

lemma select_target_total:
  "floors ! (rand_seq e (k + j) mod num_floors) \<noteq> cur \<Longrightarrow>
     \<exists>t k'. select_target e cur k = Some (t, k')"
proof (induction j arbitrary: k)
  case 0
  then show ?case by (subst select_target.simps) simp
next
  case (Suc j)
  show ?case
  proof (cases "floors ! (rand_seq e k mod num_floors) = cur")
    case True
    from Suc.prems have "floors ! (rand_seq e (Suc k + j) mod num_floors) \<noteq> cur" by simp
    from Suc.IH [OF this] True show ?thesis
      by (subst select_target.simps) simp
  next
    case False
    then show ?thesis by (subst select_target.simps) simp
  qed
qed






lemma select_target_sample: "select_target (sample_env c) (- 1) 0 = Some (1, 2)"
  by (simp add: select_target.simps sample_env_def draw_index_def floors_def num_floors_def)

lemma select_target_sample_1: "select_target (sample_env c) 1 0 = Some (- 1, 1)"
  by (simp add: select_target.simps sample_env_def draw_index_def floors_def num_floors_def)


lemma scenario_cycle_sample_500:
  "scenario_cycle (sample_env (Some 500)) (initial_state (- 1)) =
     Some (Stopped \<lparr>clock = 1000, current_floor = - 1, rand_calls = 2,
       trace = [(0, EvWrite True (enq_message ''0001'' ''FFFF'')), (0, EvSleep 1000)],
       console = [LogScenario ''B1F'' ''1F'', LogSent ''0002'' ''FFFF'' ''F2'']\<rparr>)"
  apply (simp add: scenario_cycle_def initial_state_def select_target_sample cycle_body_def Let_def)
  apply (simp add: floor_to_hex_def floor_to_string_def fits_hex_buffer_def
     send_loop.simps running_def sample_env_def fails_at_2000_def send_enq_def Sleep_def printf_def
     station_def c_str_def enq_data_part_def cmd_def calculate_checksum_hex byte_sum_def hex_eval)
  done


subsection \<open>One uncancelled cycle\<close>

lemma timeline_append:
  "timeline e t (xs @ ys) = timeline e t xs @ timeline e (t + plan_duration xs) ys"
  by (induction e t xs rule: timeline.induct) (simp_all add: add.assoc)

lemma plan_duration_append: "plan_duration (xs @ ys) = plan_duration xs + plan_duration ys"
  by (induction xs rule: plan_duration.induct) simp_all

lemma replicate_5: "replicate 5 x = [x, x, x, x, x]"
proof -
  have "(5::nat) = Suc (Suc (Suc (Suc (Suc 0))))" by simp
  then show ?thesis by (simp only: replicate.simps)
qed

lemma plan_duration_burst: "plan_duration (burst dataNum dataValue) = 5000"
  by (simp add: burst_def replicate_5)

lemma plan_duration_waits: "plan_duration (replicate n (DoWait ms)) = n * ms"
  by (induction n) simp_all

lemma send_loop_clock_le:
  "clock (send_loop e dataNum dataValue i s) \<le> clock s + 1000 * (5 - i)"
proof (induction e dataNum dataValue i s rule: send_loop.induct)
  case (1 e dataNum dataValue i s)
  show ?case
  proof (cases "i < 5 \<and> running e s")
    case True
    with 1 show ?thesis by (auto simp add: send_loop_step)
  next
    case False
    then show ?thesis by (simp add: send_loop_stop)
  qed
qed

lemma wait_loop_clock_le: "clock (wait_loop e i s) \<le> clock s + 1000 * (10 - i)"
proof (induction e i s rule: wait_loop.induct)
  case (1 e i s)
  show ?case
  proof (cases "i < 10 \<and> running e s")
    case True
    with 1 show ?thesis by (auto simp add: wait_loop_step)
  next
    case False
    then show ?thesis by (simp add: wait_loop_stop)
  qed
qed

lemma send_loop_uncancelled:
  assumes "running_at e (clock s + 5000)"
  shows "clock (send_loop e dataNum dataValue 0 s) = clock s + 5000"
    and "trace (send_loop e dataNum dataValue 0 s) =
           trace s @ timeline e (clock s) (burst dataNum dataValue)"
    and "running e (send_loop e dataNum dataValue 0 s)"
proof -
  from send_loop_clock_le [of e dataNum dataValue 0 s] assms
  show r: "running e (send_loop e dataNum dataValue 0 s)"
    by (auto simp add: running_eq intro: running_at_mono)
  from send_loop_complete [OF r]
  show "clock (send_loop e dataNum dataValue 0 s) = clock s + 5000"
    and "trace (send_loop e dataNum dataValue 0 s) =
           trace s @ timeline e (clock s) (burst dataNum dataValue)"
    by (simp_all add: burst_def)
qed

lemma wait_loop_uncancelled:
  assumes "running_at e (clock s + 10000)"
  shows "clock (wait_loop e 0 s) = clock s + 10000"
    and "trace (wait_loop e 0 s) = trace s @ timeline e (clock s) (replicate 10 (DoWait 1000))"
    and "running e (wait_loop e 0 s)"
proof -
  from wait_loop_clock_le [of e 0 s] assms
  show r: "running e (wait_loop e 0 s)"
    by (auto simp add: running_eq intro: running_at_mono)
  from wait_loop_complete [OF r]
  show "clock (wait_loop e 0 s) = clock s + 10000"
    and "trace (wait_loop e 0 s) = trace s @ timeline e (clock s) (replicate 10 (DoWait 1000))"
    by simp_all
qed

lemma floors_fit: "t \<in> set floors \<Longrightarrow> fits_hex_buffer (floor_to_hex t)"
proof -
  assume "t \<in> set floors"
  then have "t = - 1 \<or> (0 \<le> sint t \<and> sint t \<le> 65535)"
    by (auto simp add: floors_def)
  then have "length (floor_to_hex t) = 4"
    by (simp add: floor_to_hex_length_4)
  then show ?thesis by (simp add: fits_hex_buffer_def)
qed


lemma cycle_body_uncancelled:
  assumes tgt: "tgt \<in> set floors"
    and fit: "fits_hex_buffer (floor_to_hex (current_floor s0))"
    and run: "running_at e (clock s0 + 46000)"
  shows "\<exists>s'. cycle_body e tgt s0 = Again s'
         \<and> trace s' = trace s0 @ timeline e (clock s0) (cycle_plan (current_floor s0) tgt)
         \<and> clock s' = clock s0 + 46000
         \<and> current_floor s' = tgt
         \<and> rand_calls s' = rand_calls s0
         \<and> running e s'"
proof -
  let ?cur = "current_floor s0"
  define s1 where "s1 = printf (LogScenario (floor_to_string ?cur) (floor_to_string tgt)) s0"
  define s2 where "s2 = send_loop e ''0001'' (floor_to_hex ?cur) 0 s1"
  define s3 where "s3 = Sleep 3000 (printf LogWait3 s2)"
  define s4 where "s4 = send_loop e ''0002'' (floor_to_hex tgt) 0 s3"
  define s5 where "s5 = Sleep 3000 (printf LogWait3 s4)"
  define s6 where "s6 = send_loop e ''0003'' ''074E'' 0 s5"
  define s7 where "s7 = wait_loop e 0 (printf LogWait10 s6)"
  define s8 where "s8 = send_loop e ''0002'' ''0000'' 0 s7"
  define s9 where "s9 = printf (LogArrived (floor_to_string tgt)) (s8\<lparr>current_floor := tgt\<rparr>)"
  define s10 where "s10 = wait_loop e 0 (printf LogWait10 s9)"
  note defs = s1_def s2_def s3_def s4_def s5_def s6_def s7_def s8_def s9_def s10_def
  let ?t = "clock s0"
  have c1: "clock s1 = ?t" and t1: "trace s1 = trace s0"
    by (simp_all add: s1_def)
  from run have "running_at e (clock s1 + 5000)"
    by (auto simp add: c1 intro: running_at_mono)
  from send_loop_uncancelled [OF this, of "''0001''" "floor_to_hex ?cur"]
  have c2: "clock s2 = ?t + 5000"
    and t2: "trace s2 = trace s0 @ timeline e ?t (burst ''0001'' (floor_to_hex ?cur))"
    and r2: "running e s2"
    by (simp_all add: s2_def c1 t1)
  have c3: "clock s3 = ?t + 8000"
    and t3: "trace s3 = trace s2 @ timeline e (?t + 5000) [DoWait 3000]"
    by (simp_all add: s3_def c2)
  from run have "running_at e (clock s3 + 5000)"
    by (auto simp add: c3 intro: running_at_mono)
  from send_loop_uncancelled [OF this, of "''0002''" "floor_to_hex tgt"]
  have c4: "clock s4 = ?t + 13000"
    and t4: "trace s4 = trace s3 @ timeline e (?t + 8000) (burst ''0002'' (floor_to_hex tgt))"
    and r4: "running e s4"
    by (simp_all add: s4_def c3)
  have c5: "clock s5 = ?t + 16000"
    and t5: "trace s5 = trace s4 @ timeline e (?t + 13000) [DoWait 3000]"
    by (simp_all add: s5_def c4)
  from run have "running_at e (clock s5 + 5000)"
    by (auto simp add: c5 intro: running_at_mono)
  from send_loop_uncancelled [OF this, of "''0003''" "''074E''"]
  have c6: "clock s6 = ?t + 21000"
    and t6: "trace s6 = trace s5 @ timeline e (?t + 16000) (burst ''0003'' ''074E'')"
    and r6: "running e s6"
    by (simp_all add: s6_def c5)
  from run have "running_at e (clock (printf LogWait10 s6) + 10000)"
    by (auto simp add: c6 intro: running_at_mono)
  from wait_loop_uncancelled [OF this]
  have c7: "clock s7 = ?t + 31000"
    and t7: "trace s7 = trace s6 @ timeline e (?t + 21000) (replicate 10 (DoWait 1000))"
    and r7: "running e s7"
    by (simp_all add: s7_def c6)
  from run have "running_at e (clock s7 + 5000)"
    by (auto simp add: c7 intro: running_at_mono)
  from send_loop_uncancelled [OF this, of "''0002''" "''0000''"]
  have c8: "clock s8 = ?t + 36000"
    and t8: "trace s8 = trace s7 @ timeline e (?t + 31000) (burst ''0002'' ''0000'')"
    by (simp_all add: s8_def c7)
  have c9: "clock s9 = ?t + 36000" and t9: "trace s9 = trace s8"
    and f9: "current_floor s9 = tgt"
    by (simp_all add: s9_def c8)
  have k9: "rand_calls s9 = rand_calls s0"
    by (simp add: defs)
  from run have "running_at e (clock (printf LogWait10 s9) + 10000)"
    by (auto simp add: c9 intro: running_at_mono)
  from wait_loop_uncancelled [OF this]
  have c10: "clock s10 = ?t + 46000"
    and t10: "trace s10 = trace s9 @ timeline e (?t + 36000) (replicate 10 (DoWait 1000))"
    and r10: "running e s10"
    by (simp_all add: s10_def c9)
  have f10: "current_floor s10 = tgt" and k10: "rand_calls s10 = rand_calls s0"
    by (simp_all add: s10_def f9 k9)
  have tr: "trace s10 = trace s0 @ timeline e ?t (cycle_plan ?cur tgt)"
    by (simp add: t10 t9 t8 t7 t6 t5 t4 t3 t2 cycle_plan_def timeline_append
        plan_duration_append plan_duration_burst plan_duration_waits add.commute)
  have body: "cycle_body e tgt s0 = Again s10"
    using fit floors_fit [OF tgt] r2 r4 r6 r7
    unfolding cycle_body_def Let_def defs
    by simp
  from body tr c10 f10 k10 r10 show ?thesis by blast
qed


subsection \<open>Cancellation\<close>

lemma running_within_any: "running_at e t \<Longrightarrow> within_ms e d t"
  by (auto simp add: running_at_def within_ms_def split: option.splits)

lemma late_after_loop:
  "clock s' = clock s \<or> within_ms e 1000 (clock s') \<Longrightarrow> within_ms e 3000 (clock s)
     \<Longrightarrow> within_ms e 3000 (clock s')"
  by (auto intro: within_ms_mono)

lemma cycle_body_cancel:
  assumes tgt: "tgt \<in> set floors"
    and fit: "fits_hex_buffer (floor_to_hex (current_floor s0))"
    and run: "running e s0"
  shows "(\<exists>s'. cycle_body e tgt s0 = Stopped s' \<and> advances e s0 s'
            \<and> within_ms e 3000 (clock s') \<and> \<not> running e s' \<and> ends_late e s')
       \<or> (\<exists>s'. cycle_body e tgt s0 = Again s' \<and> advances e s0 s'
            \<and> within_ms e 3000 (clock s') \<and> clock s0 < clock s'
            \<and> current_floor s' = tgt \<and> ends_late e s')"
proof -
  let ?cur = "current_floor s0"
  define s1 where "s1 = printf (LogScenario (floor_to_string ?cur) (floor_to_string tgt)) s0"
  define s2 where "s2 = send_loop e ''0001'' (floor_to_hex ?cur) 0 s1"
  define s3 where "s3 = Sleep 3000 (printf LogWait3 s2)"
  define s4 where "s4 = send_loop e ''0002'' (floor_to_hex tgt) 0 s3"
  define s5 where "s5 = Sleep 3000 (printf LogWait3 s4)"
  define s6 where "s6 = send_loop e ''0003'' ''074E'' 0 s5"
  define s7 where "s7 = wait_loop e 0 (printf LogWait10 s6)"
  define s8 where "s8 = send_loop e ''0002'' ''0000'' 0 s7"
  define s9 where "s9 = printf (LogArrived (floor_to_string tgt)) (s8\<lparr>current_floor := tgt\<rparr>)"
  define s10 where "s10 = wait_loop e 0 (printf LogWait10 s9)"
  note defs = s1_def s2_def s3_def s4_def s5_def s6_def s7_def s8_def s9_def s10_def
  have b1: "advances e s0 s1"
    unfolding s1_def by (rule advances_printf)
  have b2: "advances e s1 s2"
    unfolding s2_def by (rule advances_send_loop)
  have b3: "advances e s2 s3" if "running e s2"
    unfolding s3_def using that
    by (intro advances_trans [OF advances_printf advances_Sleep]) simp_all
  have b4: "advances e s3 s4"
    unfolding s4_def by (rule advances_send_loop)
  have b5: "advances e s4 s5" if "running e s4"
    unfolding s5_def using that
    by (intro advances_trans [OF advances_printf advances_Sleep]) simp_all
  have b6: "advances e s5 s6"
    unfolding s6_def by (rule advances_send_loop)
  have b7: "advances e s6 s7"
    unfolding s7_def by (rule advances_trans [OF advances_printf advances_wait_loop])
  have b8: "advances e s7 s8"
    unfolding s8_def by (rule advances_send_loop)
  have b9: "advances e s8 s9"
    unfolding s9_def by (rule advances_trans [OF advances_floor advances_printf])
  have b10: "advances e s9 s10"
    unfolding s10_def by (rule advances_trans [OF advances_printf advances_wait_loop])
  note a2 = advances_trans [OF b1 b2]
  have a4: "advances e s0 s4" if "running e s2"
    by (rule advances_trans [OF advances_trans [OF a2 b3 [OF that]] b4])
  have a6: "advances e s0 s6" if "running e s2" "running e s4"
    by (rule advances_trans [OF advances_trans [OF a4 [OF that(1)] b5 [OF that(2)]] b6])
  have a7: "advances e s0 s7" if "running e s2" "running e s4"
    by (rule advances_trans [OF a6 [OF that] b7])
  have a10: "advances e s0 s10" if "running e s2" "running e s4"
    by (rule advances_trans [OF advances_trans [OF advances_trans [OF a7 [OF that] b8] b9] b10])
  have m: "clock s2 \<le> clock s10" if "running e s2" "running e s4"
  proof -
    have "advances e s2 s10"
      by (rule advances_trans [OF b3 [OF that(1)] advances_trans [OF b4
          advances_trans [OF b5 [OF that(2)] advances_trans [OF b6 advances_trans [OF b7
          advances_trans [OF b8 advances_trans [OF b9 b10]]]]]]])
    then show ?thesis by (simp add: advances_def)
  qed
  have l1: "within_ms e 3000 (clock s1)"
    using run by (simp add: s1_def running_eq running_within_any)
  have l2: "within_ms e 3000 (clock s2)"
    unfolding s2_def by (rule late_after_loop [OF send_loop_late l1])
  have l3: "within_ms e 3000 (clock s3)" if "running e s2"
    using that running_within [of e "clock s2" 3000] by (simp add: s3_def running_eq)
  have l4: "within_ms e 3000 (clock s4)" if "running e s2"
    unfolding s4_def by (rule late_after_loop [OF send_loop_late l3 [OF that]])
  have l5: "within_ms e 3000 (clock s5)" if "running e s4"
    using that running_within [of e "clock s4" 3000] by (simp add: s5_def running_eq)
  have l6: "within_ms e 3000 (clock s6)" if "running e s4"
    unfolding s6_def by (rule late_after_loop [OF send_loop_late l5 [OF that]])
  have l7: "within_ms e 3000 (clock s7)" if "running e s6"
  proof -
    from that have "within_ms e 3000 (clock (printf LogWait10 s6))"
      by (simp add: running_eq running_within_any)
    from late_after_loop [OF wait_loop_late this] show ?thesis
      by (simp add: s7_def)
  qed
  have l8: "within_ms e 3000 (clock s8)" if "running e s7"
  proof -
    from that have "within_ms e 3000 (clock s7)"
      by (simp add: running_eq running_within_any)
    from late_after_loop [OF send_loop_late this] show ?thesis
      by (simp add: s8_def)
  qed
  have l10: "within_ms e 3000 (clock s10)" if "running e s7"
  proof -
    from l8 [OF that] have "within_ms e 3000 (clock (printf LogWait10 s9))"
      by (simp add: s9_def)
    from late_after_loop [OF wait_loop_late this] show ?thesis
      by (simp add: s10_def)
  qed
  have up: "clock s0 < clock s10" if "running e s2" "running e s4"
  proof -
    from send_loop_complete [OF that(1) [unfolded s2_def]]
    have "clock s2 = clock s0 + 5000" by (simp add: s2_def s1_def)
    with m [OF that] show ?thesis by simp
  qed
  have e2: "ends_late e s2"
  proof -
    from run have "within_ms e 1000 (clock s1)"
      by (simp add: s1_def running_eq running_within_any)
    with send_loop_same_or_late [of e "''0001''" "floor_to_hex ?cur" 0 s1]
    show ?thesis by (auto simp add: ends_late_def s2_def)
  qed
  have w3: "trace s3 \<noteq> [] \<and> snd (last (trace s3)) = EvSleep 3000"
    by (simp add: s3_def)
  have e4: "ends_late e s4" if "running e s2"
    using send_loop_same_or_late [of e "''0002''" "floor_to_hex tgt" 0 s3] w3 l3 [OF that]
    by (auto simp add: ends_late_def s4_def)
  have w5: "trace s5 \<noteq> [] \<and> snd (last (trace s5)) = EvSleep 3000"
    by (simp add: s5_def)
  have e6: "ends_late e s6" if "running e s4"
    using send_loop_same_or_late [of e "''0003''" "''074E''" 0 s5] w5 l5 [OF that]
    by (auto simp add: ends_late_def s6_def)
  have e7: "ends_late e s7" if "running e s6"
  proof -
    from that have "within_ms e 1000 (clock (printf LogWait10 s6))"
      by (simp add: running_eq running_within_any)
    with wait_loop_same_or_late [of e 0 "printf LogWait10 s6"]
    show ?thesis by (auto simp add: ends_late_def s7_def)
  qed
  have e10: "ends_late e s10" if "running e s7"
  proof -
    from that have "within_ms e 1000 (clock s7)"
      by (simp add: running_eq running_within_any)
    with send_loop_same_or_late [of e "''0002''" "''0000''" 0 s7]
    have "within_ms e 1000 (clock s8)" by (auto simp add: s8_def)
    then have "within_ms e 1000 (clock (printf LogWait10 s9))"
      by (simp add: s9_def)
    with wait_loop_same_or_late [of e 0 "printf LogWait10 s9"]
    show ?thesis by (auto simp add: ends_late_def s10_def)
  qed
  have f10: "current_floor s10 = tgt"
    by (simp add: s10_def s9_def)
  note fits = fit floors_fit [OF tgt]
  consider (c2) "\<not> running e s2"
    | (c4) "running e s2" "\<not> running e s4"
    | (c6) "running e s2" "running e s4" "\<not> running e s6"
    | (c7) "running e s2" "running e s4" "running e s6" "\<not> running e s7"
    | (c10) "running e s2" "running e s4" "running e s6" "running e s7"
    by blast
  then show ?thesis
  proof cases
    case c2
    then have "cycle_body e tgt s0 = Stopped s2"
      using fits unfolding cycle_body_def Let_def defs by simp
    with a2 l2 c2 e2 show ?thesis by blast
  next
    case c4
    then have "cycle_body e tgt s0 = Stopped s4"
      using fits unfolding cycle_body_def Let_def defs by simp
    with a4 [OF c4(1)] l4 [OF c4(1)] c4 e4 [OF c4(1)] show ?thesis by blast
  next
    case c6
    then have "cycle_body e tgt s0 = Stopped s6"
      using fits unfolding cycle_body_def Let_def defs by simp
    with a6 [OF c6(1,2)] l6 [OF c6(2)] c6 e6 [OF c6(2)] show ?thesis by blast
  next
    case c7
    then have "cycle_body e tgt s0 = Stopped s7"
      using fits unfolding cycle_body_def Let_def defs by simp
    with a7 [OF c7(1,2)] l7 [OF c7(3)] c7 e7 [OF c7(3)] show ?thesis by blast
  next
    case c10
    then have "cycle_body e tgt s0 = Again s10"
      using fits unfolding cycle_body_def Let_def defs by simp
    with a10 [OF c10(1,2)] l10 [OF c10(4)] up [OF c10(1,2)] f10 e10 [OF c10(4)]
    show ?thesis by blast
  qed
qed

lemma wmain_loop_stops:
  assumes c: "cancel_at e = Some c"
    and fair: "\<forall>cur k. draws_other e cur k"
  shows "fits_hex_buffer (floor_to_hex (current_floor s)) \<Longrightarrow>
     \<exists>s'. wmain_loop e s = Some (Stopped s') \<and> advances e s s'
        \<and> (s' = s \<or> within_ms e 3000 (clock s') \<and> ends_late e s') \<and> \<not> running e s'"
proof (induction "c - clock s" arbitrary: s rule: less_induct)
  case less
  show ?case
  proof (cases "running e s")
    case False
    then have "wmain_loop e s = Some (Stopped s)"
      by (subst wmain_loop.simps) simp
    with False show ?thesis by simp
  next
    case True
    from fair have "draws_other e (current_floor s) (rand_calls s)" by blast
    then obtain tgt k where sel: "select_target e (current_floor s) (rand_calls s) = Some (tgt, k)"
      using select_target_total unfolding draws_other_def by blast
    from select_target_sound [OF sel] have tgt: "tgt \<in> set floors" by simp
    let ?s0 = "s\<lparr>rand_calls := k\<rparr>"
    have cyc: "scenario_cycle e s = Some (cycle_body e tgt ?s0)"
      using sel by (simp add: scenario_cycle_def)
    have a0: "advances e s ?s0" by (rule advances_rand)
    from cycle_body_cancel [OF tgt, of ?s0 e] less.prems True
    consider (stop) s' where "cycle_body e tgt ?s0 = Stopped s'" "advances e ?s0 s'"
        "within_ms e 3000 (clock s')" "\<not> running e s'" "ends_late e s'"
      | (again) s' where "cycle_body e tgt ?s0 = Again s'" "advances e ?s0 s'"
        "within_ms e 3000 (clock s')" "clock s < clock s'" "current_floor s' = tgt"
        "ends_late e s'"
      by auto
    then show ?thesis
    proof cases
      case stop
      from stop(1) cyc True have "wmain_loop e s = Some (Stopped s')"
        by (subst wmain_loop.simps) simp
      with advances_trans [OF a0 stop(2)] stop(3,4,5) show ?thesis by blast
    next
      case again
      from again(1) cyc True have w: "wmain_loop e s = wmain_loop e s'"
        by (subst wmain_loop.simps) simp
      from True c have "clock s < c" by (simp add: running_def)
      with again(4) have "c - clock s' < c - clock s" by simp
      moreover from again(5) tgt have "fits_hex_buffer (floor_to_hex (current_floor s'))"
        by (simp add: floors_fit)
      ultimately obtain s'' where r: "wmain_loop e s' = Some (Stopped s'')" "advances e s' s''"
          "s'' = s' \<or> within_ms e 3000 (clock s'') \<and> ends_late e s''" "\<not> running e s''"
        using less.hyps by blast
      from r(3) again(3,6) have "within_ms e 3000 (clock s'') \<and> ends_late e s''" by blast
      with w r(1,4) advances_trans [OF advances_trans [OF a0 again(2)] r(2)]
      show ?thesis by auto
    qed
  qed
qed
subsection \<open>Two runs of the model\<close>

lemma floor_to_hex_floors:
  "floor_to_hex (- 1) = ''FFFF''"
  "floor_to_hex 1 = ''0001''"
  "floor_to_hex 2 = ''0002''"
  "floor_to_hex 3 = ''0003''"
proof -
  show "floor_to_hex (- 1) = ''FFFF''" by (simp add: floor_to_hex_def)
  have "floor_to_hex 1 = hex_fixed 4 (unat (1 :: 32 word))"
    by (intro floor_to_hex_in_range) simp_all
  then show "floor_to_hex 1 = ''0001''" by (simp add: hex_eval)
  have "floor_to_hex 2 = hex_fixed 4 (unat (2 :: 32 word))"
    by (intro floor_to_hex_in_range) simp_all
  then show "floor_to_hex 2 = ''0002''" by (simp add: hex_eval)
  have "floor_to_hex 3 = hex_fixed 4 (unat (3 :: 32 word))"
    by (intro floor_to_hex_in_range) simp_all
  then show "floor_to_hex 3 = ''0003''" by (simp add: hex_eval)
qed

lemmas run_eval = floor_to_hex_floors floor_to_string_def fits_hex_buffer_def
  send_loop.simps wait_loop.simps running_def sample_env_def fails_at_2000_def send_enq_def
  Sleep_def printf_def station_def c_str_def enq_data_part_def cmd_def
  calculate_checksum_hex byte_sum_def hex_eval


lemma replicate_10: "replicate 10 x = [x, x, x, x, x, x, x, x, x, x]"
proof -
  have "(10::nat) = Suc (Suc (Suc (Suc (Suc (Suc (Suc (Suc (Suc (Suc 0)))))))))" by simp
  then show ?thesis by (simp only: replicate.simps)
qed

lemma wmain_sample_31500:
  "wmain (sample_env (Some 31500)) 1 = Some (Stopped
     \<lparr>clock = 32000, current_floor = - 1, rand_calls = 1,
       trace = timeline (sample_env (Some 31500)) 0
         (burst ''0001'' ''0001'' @ [DoWait 3000] @ burst ''0002'' ''FFFF'' @ [DoWait 3000]
          @ burst ''0003'' ''074E'' @ replicate 10 (DoWait 1000)
          @ [DoSend ''0002'' ''0000'', DoWait 1000]),
       console = [LogScenario ''1F'' ''B1F'', LogSent ''0002'' ''0001'' ''9B'',
                  LogSent ''0002'' ''0001'' ''9B'', LogSendError,
                  LogSent ''0002'' ''0001'' ''9B'', LogSent ''0002'' ''0001'' ''9B'',
                  LogWait3,
                  LogSent ''0002'' ''FFFF'' ''F3'', LogSent ''0002'' ''FFFF'' ''F3'',
                  LogSent ''0002'' ''FFFF'' ''F3'', LogSent ''0002'' ''FFFF'' ''F3'',
                  LogSent ''0002'' ''FFFF'' ''F3'', LogWait3,
                  LogSent ''0002'' ''074E'' ''BC'', LogSent ''0002'' ''074E'' ''BC'',
                  LogSent ''0002'' ''074E'' ''BC'', LogSent ''0002'' ''074E'' ''BC'',
                  LogSent ''0002'' ''074E'' ''BC'', LogWait10,
                  LogSent ''0002'' ''0000'' ''9B'', LogArrived ''B1F'', LogWait10]\<rparr>)"
proof -
  let ?e = "sample_env (Some 31500)"
  have r: "running ?e (initial_state 1)"
    by (simp add: running_def sample_env_def initial_state_def)
  have "wmain ?e 1 = wmain_loop ?e (initial_state 1)"
    by (simp add: wmain_def)
  also have "\<dots> = (case cycle_body ?e (- 1) (initial_state 1\<lparr>rand_calls := 1\<rparr>) of
        BufferOverrun \<Rightarrow> Some BufferOverrun
      | Stopped s' \<Rightarrow> Some (Stopped s')
      | Again s' \<Rightarrow> wmain_loop ?e s')"
    apply (subst wmain_loop.simps)
    apply (simp add: r scenario_cycle_def)
    apply (simp add: initial_state_def select_target_sample_1)
    done
  also have "cycle_body ?e (- 1) (initial_state 1\<lparr>rand_calls := 1\<rparr>) = Again
     \<lparr>clock = 32000, current_floor = - 1, rand_calls = 1,
       trace = timeline ?e 0
         (burst ''0001'' ''0001'' @ [DoWait 3000] @ burst ''0002'' ''FFFF'' @ [DoWait 3000]
          @ burst ''0003'' ''074E'' @ replicate 10 (DoWait 1000)
          @ [DoSend ''0002'' ''0000'', DoWait 1000]),
       console = [LogScenario ''1F'' ''B1F'', LogSent ''0002'' ''0001'' ''9B'',
                  LogSent ''0002'' ''0001'' ''9B'', LogSendError,
                  LogSent ''0002'' ''0001'' ''9B'', LogSent ''0002'' ''0001'' ''9B'',
                  LogWait3,
                  LogSent ''0002'' ''FFFF'' ''F3'', LogSent ''0002'' ''FFFF'' ''F3'',
                  LogSent ''0002'' ''FFFF'' ''F3'', LogSent ''0002'' ''FFFF'' ''F3'',
                  LogSent ''0002'' ''FFFF'' ''F3'', LogWait3,
                  LogSent ''0002'' ''074E'' ''BC'', LogSent ''0002'' ''074E'' ''BC'',
                  LogSent ''0002'' ''074E'' ''BC'', LogSent ''0002'' ''074E'' ''BC'',
                  LogSent ''0002'' ''074E'' ''BC'', LogWait10,
                  LogSent ''0002'' ''0000'' ''9B'', LogArrived ''B1F'', LogWait10]\<rparr>"
    by (simp add: cycle_body_def Let_def initial_state_def run_eval burst_def replicate_5
        replicate_10)
  finally show ?thesis
    by (subst (asm) wmain_loop.simps) (simp add: running_def sample_env_def)
qed

subsection \<open>Cancellation of the whole loop, and failed writes\<close>

lemma sample_env_fair: "draws_other (sample_env c) cur k"
proof -
  have "k mod 4 < 4" by simp
  then consider "k mod 4 = 0" | "k mod 4 = 1" | "k mod 4 = 2" | "k mod 4 = 3"
    by linarith
  then have "floors ! (k mod 4) \<noteq> floors ! (Suc k mod 4)"
    by cases (simp_all add: mod_Suc floors_def)
  then have "floors ! (k mod 4) \<noteq> cur \<or> floors ! (Suc k mod 4) \<noteq> cur"
    by auto
  then show ?thesis
  proof
    assume "floors ! (k mod 4) \<noteq> cur"
    then show ?thesis
      unfolding draws_other_def
      by (intro exI [of _ 0]) (simp add: sample_env_def draw_index_def num_floors_def floors_def)
  next
    assume "floors ! (Suc k mod 4) \<noteq> cur"
    then show ?thesis
      unfolding draws_other_def
      by (intro exI [of _ 1]) (simp add: sample_env_def draw_index_def num_floors_def floors_def)
  qed
qed




text \<open>
  Every \<^verbatim>\<open>break\<close> out of the loop body leaves the current floor as it was: the first
  three stages and the 10-second wait are each followed by \<^verbatim>\<open>if (!running) break;\<close>.
  The Arrival stage is not.
\<close>

lemma break_keeps_floor:
  "cycle_body e tgt s0 = Stopped s' \<Longrightarrow> current_floor s' = current_floor s0"
  by (auto simp add: cycle_body_def Let_def split: if_splits)

text \<open>
  C3 at the run in which the flag is cleared at 31500 ms, during the Arrival stage:
  sixteen telegrams are written, the last being the first of the five Arrival telegrams,
  and yet the run ends with the current floor moved from 1 to the target \<open>-1\<close> and the
  arrival line printed.
\<close>

theorem arrival_cancelled_floor_updated:
  "map_option current_floor (final_state (wmain (sample_env (Some 31500)) 1)) = Some (- 1)
   \<and> map_option (length \<circ> writes \<circ> trace) (final_state (wmain (sample_env (Some 31500)) 1))
       = Some 16
   \<and> map_option (last \<circ> writes \<circ> trace) (final_state (wmain (sample_env (Some 31500)) 1))
       = Some (31000, enq_message ''0002'' ''0000'')
   \<and> map_option (set \<circ> console) (final_state (wmain (sample_env (Some 31500)) 1))
       = Some {LogScenario ''1F'' ''B1F'', LogSent ''0002'' ''0001'' ''9B'', LogSendError,
               LogWait3, LogSent ''0002'' ''FFFF'' ''F3'', LogSent ''0002'' ''074E'' ''BC'',
               LogWait10, LogSent ''0002'' ''0000'' ''9B'', LogArrived ''B1F''}"
  by (simp add: wmain_sample_31500 final_state_def burst_def replicate_5 replicate_10) auto

lemma writes_burst:
  "writes (timeline e t (burst dataNum dataValue)) =
     [(t, enq_message dataNum dataValue), (t + 1000, enq_message dataNum dataValue),
      (t + 2000, enq_message dataNum dataValue), (t + 3000, enq_message dataNum dataValue),
      (t + 4000, enq_message dataNum dataValue)]"
  by (simp add: burst_def replicate_5)

text \<open>
  C9.  A \<^verbatim>\<open>WriteFile\<close> that fails is logged inside \<^verbatim>\<open>send_enq\<close>, which then returns:
  the clock, the current floor and the position in the random sequence are as before,
  the loop goes on to its next turn exactly as after a successful write, and a stage
  during which the flag stays set makes its five attempts and ends with the flag set,
  whatever the writes return.
\<close>

theorem send_failure_absorbed:
  "(\<not> write_ok e (clock s) \<longrightarrow>
      send_enq e dataNum dataValue s =
        printf LogSendError
          (s\<lparr>trace := trace s @ [(clock s, EvWrite False (enq_message dataNum dataValue))]\<rparr>)
      \<and> console (send_enq e dataNum dataValue s) = console s @ [LogSendError]
      \<and> clock (send_enq e dataNum dataValue s) = clock s
      \<and> current_floor (send_enq e dataNum dataValue s) = current_floor s
      \<and> rand_calls (send_enq e dataNum dataValue s) = rand_calls s)
   \<and> (i < 5 \<and> running e s \<longrightarrow>
        send_loop e dataNum dataValue i s =
          send_loop e dataNum dataValue (Suc i) (Sleep 1000 (send_enq e dataNum dataValue s)))
   \<and> (running_at e (clock s + 5000) \<longrightarrow>
        writes (trace (send_loop e dataNum dataValue 0 s)) =
          writes (trace s) @
            [(clock s, enq_message dataNum dataValue),
             (clock s + 1000, enq_message dataNum dataValue),
             (clock s + 2000, enq_message dataNum dataValue),
             (clock s + 3000, enq_message dataNum dataValue),
             (clock s + 4000, enq_message dataNum dataValue)]
        \<and> clock (send_loop e dataNum dataValue 0 s) = clock s + 5000
        \<and> current_floor (send_loop e dataNum dataValue 0 s) = current_floor s
        \<and> running e (send_loop e dataNum dataValue 0 s))"
proof -
  have a: "send_enq e dataNum dataValue s =
        printf LogSendError
          (s\<lparr>trace := trace s @ [(clock s, EvWrite False (enq_message dataNum dataValue))]\<rparr>)"
    if "\<not> write_ok e (clock s)"
    using that by (simp add: send_enq_def Let_def)
  have b: "writes (trace (send_loop e dataNum dataValue 0 s)) =
          writes (trace s) @
            [(clock s, enq_message dataNum dataValue),
             (clock s + 1000, enq_message dataNum dataValue),
             (clock s + 2000, enq_message dataNum dataValue),
             (clock s + 3000, enq_message dataNum dataValue),
             (clock s + 4000, enq_message dataNum dataValue)]
        \<and> clock (send_loop e dataNum dataValue 0 s) = clock s + 5000
        \<and> running e (send_loop e dataNum dataValue 0 s)"
    if "running_at e (clock s + 5000)"
    using send_loop_uncancelled [OF that, of dataNum dataValue]
    by (simp add: writes_append writes_burst)
  from a b show ?thesis
    by (auto simp add: send_loop_step)
qed

theorem send_failure_absorbed_witness:
  "\<not> write_ok (sample_env (Some 60000)) (clock (Sleep 2000 (initial_state 1)))
   \<and> (2 :: nat) < 5 \<and> running (sample_env (Some 60000)) (Sleep 2000 (initial_state 1))
   \<and> running_at (sample_env (Some 60000)) (clock (Sleep 2000 (initial_state 1)) + 5000)
   \<and> trace (send_enq (sample_env (Some 60000)) ''0001'' ''0001'' (Sleep 2000 (initial_state 1)))
       = [(0, EvSleep 2000), (2000, EvWrite False (enq_message ''0001'' ''0001''))]
   \<and> console (send_enq (sample_env (Some 60000)) ''0001'' ''0001'' (Sleep 2000 (initial_state 1)))
       = [LogSendError]
   \<and> writes (trace (send_loop (sample_env (Some 60000)) ''0001'' ''0001'' 0
        (Sleep 2000 (initial_state 1)))) =
       [(2000, enq_message ''0001'' ''0001''), (3000, enq_message ''0001'' ''0001''),
        (4000, enq_message ''0001'' ''0001''), (5000, enq_message ''0001'' ''0001''),
        (6000, enq_message ''0001'' ''0001'')]"
proof -
  let ?e = "sample_env (Some 60000)"
  let ?s = "Sleep 2000 (initial_state 1)"
  have h1: "\<not> write_ok ?e (clock ?s)"
    by (simp add: sample_env_def fails_at_2000_def initial_state_def)
  have h2: "(2 :: nat) < 5 \<and> running ?e ?s"
    by (simp add: running_eq running_at_def sample_env_def initial_state_def)
  have h3: "running_at ?e (clock ?s + 5000)"
    by (simp add: running_at_def sample_env_def initial_state_def)
  from send_failure_absorbed [of ?e ?s "''0001''" "''0001''" 2] h1 h2 h3
  show ?thesis
    by (simp add: initial_state_def printf_def)
qed

subsection \<open>The cycle within the loop\<close>

text \<open>
  C5.  In a scenario cycle during which the flag is not cleared, the stages follow each
  other in the fixed order: five sends of data number \<open>''0001''\<close> (the current floor),
  a wait of 3 seconds, five sends of \<open>''0002''\<close> (the target floor), a wait of 3 seconds,
  five sends of \<open>''0003''\<close>, a wait of 10 seconds, five sends of \<open>''0002''\<close> with data
  value \<open>''0000''\<close>, a wait of 10 seconds; then the current floor is the target, the flag
  is still set, and the loop runs its next cycle from there: what the loop returns is
  what it returns after one more pass of the body, and whenever the flag is cleared
  later the whole run returns with a trace that begins with this cycle.
\<close>

theorem uncancelled_cycle_order:
  assumes "select_target e (current_floor s) (rand_calls s) = Some (tgt, k)"
    and "fits_hex_buffer (floor_to_hex (current_floor s))"
    and "running_at e (clock s + 46000)"
  shows "\<exists>s'. scenario_cycle e s = Some (Again s')
         \<and> trace s' = trace s @ timeline e (clock s) (cycle_plan (current_floor s) tgt)
         \<and> clock s' = clock s + 46000
         \<and> current_floor s' = tgt
         \<and> wmain_loop e s = wmain_loop e s'
         \<and> running e s'
         \<and> wmain_loop e s =
             (case scenario_cycle e s' of
                None \<Rightarrow> None
              | Some BufferOverrun \<Rightarrow> Some BufferOverrun
              | Some (Stopped s'') \<Rightarrow> Some (Stopped s'')
              | Some (Again s'') \<Rightarrow> wmain_loop e s'')
         \<and> (cancel_at e \<noteq> None \<and> (\<forall>cur k. draws_other e cur k) \<longrightarrow>
              (\<exists>sf tr. wmain_loop e s = Some (Stopped sf)
                 \<and> trace sf =
                     trace s @ timeline e (clock s) (cycle_plan (current_floor s) tgt) @ tr
                 \<and> clock s + 46000 < clock sf))"
proof -
  from select_target_sound [OF assms(1)] have tgt: "tgt \<in> set floors" by simp
  from cycle_body_uncancelled [OF tgt, of "s\<lparr>rand_calls := k\<rparr>" e] assms(2,3)
  obtain s' where body: "cycle_body e tgt (s\<lparr>rand_calls := k\<rparr>) = Again s'"
    and tr: "trace s' = trace s @ timeline e (clock s) (cycle_plan (current_floor s) tgt)"
    and c: "clock s' = clock s + 46000" and f: "current_floor s' = tgt"
    and r': "running e s'"
    by auto
  from body assms(1) have cyc: "scenario_cycle e s = Some (Again s')"
    by (simp add: scenario_cycle_def)
  from assms(3) have "running e s"
    by (auto simp add: running_eq intro: running_at_mono)
  with cyc have w: "wmain_loop e s = wmain_loop e s'"
    by (subst wmain_loop.simps) simp
  from r' have next_cycle: "wmain_loop e s' =
             (case scenario_cycle e s' of
                None \<Rightarrow> None
              | Some BufferOverrun \<Rightarrow> Some BufferOverrun
              | Some (Stopped s'') \<Rightarrow> Some (Stopped s'')
              | Some (Again s'') \<Rightarrow> wmain_loop e s'')"
    by (subst wmain_loop.simps) simp
  have fin: "\<exists>sf tr. wmain_loop e s = Some (Stopped sf)
                 \<and> trace sf =
                     trace s @ timeline e (clock s) (cycle_plan (current_floor s) tgt) @ tr
                 \<and> clock s + 46000 < clock sf"
    if "cancel_at e \<noteq> None" "\<forall>cur k. draws_other e cur k"
  proof -
    from that(1) obtain c' where c': "cancel_at e = Some c'" by blast
    from f tgt have "fits_hex_buffer (floor_to_hex (current_floor s'))"
      by (simp add: floors_fit)
    from wmain_loop_stops [OF c' that(2) this]
    obtain sf where sf: "wmain_loop e s' = Some (Stopped sf)" "advances e s' sf"
        "\<not> running e sf"
      by blast
    from sf(2) obtain tr' where "trace sf = trace s' @ tr'"
      unfolding advances_def by blast
    moreover from r' sf(3) c' c have "clock s + 46000 < clock sf"
      by (simp add: running_def)
    ultimately show ?thesis
      using sf(1) w tr by auto
  qed
  note wn = trans [OF w next_cycle]
  from fin have fin': "cancel_at e \<noteq> None \<and> (\<forall>cur k. draws_other e cur k) \<longrightarrow>
              (\<exists>sf tr. wmain_loop e s = Some (Stopped sf)
                 \<and> trace sf =
                     trace s @ timeline e (clock s) (cycle_plan (current_floor s) tgt) @ tr
                 \<and> clock s + 46000 < clock sf)"
    by blast
  show ?thesis
  proof (intro exI [of _ s'] conjI)
    show "scenario_cycle e s = Some (Again s')" by (rule cyc)
    show "trace s' = trace s @ timeline e (clock s) (cycle_plan (current_floor s) tgt)"
      by (rule tr)
    show "clock s' = clock s + 46000" by (rule c)
    show "current_floor s' = tgt" by (rule f)
    show "wmain_loop e s = wmain_loop e s'" by (rule w)
    show "running e s'" by (rule r')
    show "wmain_loop e s =
             (case scenario_cycle e s' of
                None \<Rightarrow> None
              | Some BufferOverrun \<Rightarrow> Some BufferOverrun
              | Some (Stopped s'') \<Rightarrow> Some (Stopped s'')
              | Some (Again s'') \<Rightarrow> wmain_loop e s'')"
      by (rule wn)
    show "cancel_at e \<noteq> None \<and> (\<forall>cur k. draws_other e cur k) \<longrightarrow>
              (\<exists>sf tr. wmain_loop e s = Some (Stopped sf)
                 \<and> trace sf =
                     trace s @ timeline e (clock s) (cycle_plan (current_floor s) tgt) @ tr
                 \<and> clock s + 46000 < clock sf)"
      by (rule fin')
  qed
qed

theorem uncancelled_cycle_order_witness:
  "select_target (sample_env (Some 60000)) (current_floor (initial_state 1))
       (rand_calls (initial_state 1)) = Some (- 1, 1)
   \<and> fits_hex_buffer (floor_to_hex (current_floor (initial_state 1)))
   \<and> running_at (sample_env (Some 60000)) (clock (initial_state 1) + 46000)
   \<and> cancel_at (sample_env (Some 60000)) \<noteq> None
   \<and> (\<forall>cur k. draws_other (sample_env (Some 60000)) cur k)
   \<and> (\<exists>s'. scenario_cycle (sample_env (Some 60000)) (initial_state 1) = Some (Again s')
         \<and> trace s' = timeline (sample_env (Some 60000)) 0 (cycle_plan 1 (- 1))
         \<and> clock s' = 46000
         \<and> current_floor s' = - 1
         \<and> running (sample_env (Some 60000)) s')
   \<and> (\<exists>sf tr. wmain_loop (sample_env (Some 60000)) (initial_state 1) = Some (Stopped sf)
         \<and> trace sf = timeline (sample_env (Some 60000)) 0 (cycle_plan 1 (- 1)) @ tr
         \<and> 46000 < clock sf)"
proof -
  let ?e = "sample_env (Some 60000)"
  have h1: "select_target ?e (current_floor (initial_state 1)) (rand_calls (initial_state 1))
      = Some (- 1, 1)"
    by (simp add: initial_state_def select_target_sample_1)
  have h2: "fits_hex_buffer (floor_to_hex (current_floor (initial_state 1)))"
    by (simp add: initial_state_def floors_fit floors_def)
  have h3: "running_at ?e (clock (initial_state 1) + 46000)"
    by (simp add: initial_state_def running_at_def sample_env_def)
  have h4: "cancel_at ?e \<noteq> None" by (simp add: sample_env_def)
  have h5: "\<forall>cur k. draws_other ?e cur k" by (simp add: sample_env_fair)
  from uncancelled_cycle_order [OF h1 h2 h3] h4 h5
  have "(\<exists>s'. scenario_cycle ?e (initial_state 1) = Some (Again s')
         \<and> trace s' = timeline ?e 0 (cycle_plan 1 (- 1))
         \<and> clock s' = 46000
         \<and> current_floor s' = - 1
         \<and> running ?e s')
   \<and> (\<exists>sf tr. wmain_loop ?e (initial_state 1) = Some (Stopped sf)
         \<and> trace sf = timeline ?e 0 (cycle_plan 1 (- 1)) @ tr
         \<and> 46000 < clock sf)"
    by (auto simp add: initial_state_def)
  with h1 h2 h3 h4 h5 show ?thesis by blast
qed

end
